theory Spec2Isabelle
  imports Main "HOL-Library.Sublist"
begin

chapter \<open>The detection and synchronisation engine of idrd\<close>

text \<open>
  A shallow embedding of the Go sources: the provider selector
  (\<open>DynamicProvider.GetIP\<close>), the DNS synchroniser (\<open>CloudflareUpdater\<close>), the event
  hub (\<open>Hub\<close>) and the monitoring loop (\<open>monitorIP\<close>). Functions keep the names
  of the source. What the source does to the outside (the network, the DNS provider's
  API, the database, the log, the clock) is explicit: library calls are parameters of
  the model, and the calls made are recorded in the order made. The definitions come
  first, the theorems about them follow.
\<close>

section \<open>Configuration snapshot (package config)\<close>

text \<open>
  Go strings are byte sequences, so they are modelled as \<open>string\<close> (a list of 8-bit
  characters); message texts that the source writes in Chinese are given by their UTF-8
  bytes. A Go \<open>map[string]string\<close> is a partial map whose lookup yields the empty
  string for an absent key. A Go \<open>error\<close> is represented by its message, \<open>nil\<close> by
  \<open>None\<close>.
\<close>

record IPProviderConfig =
  Type :: string
  Enabled :: bool
  Properties :: "string \<rightharpoonup> string"

definition property :: "(string \<rightharpoonup> string) \<Rightarrow> string \<Rightarrow> string" where
  "property m k = (case m k of None \<Rightarrow> [] | Some v \<Rightarrow> v)"

record Zone =
  ZoneName :: string
  Records :: "string list"

record CloudflareAccount =
  Name :: string
  APIToken :: string
  Zones :: "Zone list"

record IntervalsConfig =
  IPCheck :: string
  DNSUpdate :: string
  HistoryRetention :: string

record AppConfig =
  IPProviders :: "IPProviderConfig list"
  CloudflareAccounts :: "CloudflareAccount list"
  Intervals :: IntervalsConfig

section \<open>Provider selector (package ip, DynamicProvider.GetIP)\<close>

datatype Provider =
    STUNProvider string
  | RouterProvider string string int string string string string string string

text \<open>
  The arguments of \<open>RouterProvider\<close> are the fields Type, Host, Port, User, Password,
  Key, KeyPath, Interface and HostKey, in the order of the struct literal in the source.
  \<open>fmt.Sscanf (s, "%d", &port)\<close> is a library function: it is a parameter \<open>scan\<close>
  of the model that yields the scanned integer, or \<open>None\<close> when scanning fails and
  \<open>port\<close> keeps its value.
\<close>

definition newProvider :: "(string \<Rightarrow> int option) \<Rightarrow> IPProviderConfig \<Rightarrow> Provider option" where
  "newProvider scan pCfg =
     (if Type pCfg = ''stun'' then
        (let server = property (Properties pCfg) ''server'';
             server = (if server = [] then ''stun.l.google.com:19302'' else server)
         in Some (STUNProvider server))
      else if Type pCfg = ''router_ssh'' then
        (let port = (22::int);
             port = (if property (Properties pCfg) ''port'' \<noteq> []
                     then (case scan (property (Properties pCfg) ''port'') of
                             Some n \<Rightarrow> n | None \<Rightarrow> port)
                     else port)
         in Some (RouterProvider
                    (property (Properties pCfg) ''type'')
                    (property (Properties pCfg) ''host'')
                    port
                    (property (Properties pCfg) ''user'')
                    (property (Properties pCfg) ''password'')
                    (property (Properties pCfg) ''key'')
                    (property (Properties pCfg) ''key_path'')
                    (property (Properties pCfg) ''interface'')
                    (property (Properties pCfg) ''host_key'')))
      else None)"

text \<open>
  A discovery attempt \<open>p.GetIP()\<close> talks to the network. It is a parameter of the
  model: a function from the provider and the state of the outside world to the triple
  (ip, source, err) and the next state of the world.
\<close>

type_synonym reply = "string \<times> string \<times> string option"

type_synonym 'w discover = "Provider \<Rightarrow> 'w \<Rightarrow> reply \<times> 'w"

datatype selector_error =
    AllProvidersFailed "string list"
  | NoEnabledProvider

definition fetch_failed :: string where
  "fetch_failed = [CHR 0xE8, CHR 0x8E, CHR 0xB7, CHR 0xE5, CHR 0x8F, CHR 0x96,
                   CHR 0xE5, CHR 0xA4, CHR 0xB1, CHR 0xE8, CHR 0xB4, CHR 0xA5]"

definition errMsg :: "string \<Rightarrow> string \<Rightarrow> string" where
  "errMsg kind err = ''['' @ kind @ ''] '' @ fetch_failed @ '': '' @ err"

text \<open>
  The loop of \<open>GetIP\<close> over \<open>cfg.IPProviders\<close>. Beside the result and the world it
  returns the attempts it made, each with the provider's reply, in the order made: the
  source logs one line per attempt just before the call.
\<close>

type_synonym attempts = "(IPProviderConfig \<times> reply) list"

fun GetIP_loop ::
  "(string \<Rightarrow> int option) \<Rightarrow> 'w discover \<Rightarrow> IPProviderConfig list \<Rightarrow> string list \<Rightarrow>
   attempts \<Rightarrow> 'w \<Rightarrow> (selector_error + string \<times> string) \<times> attempts \<times> 'w" where
  "GetIP_loop scan run [] errors tr w =
     (if length errors > 0 then (Inl (AllProvidersFailed errors), tr, w)
      else (Inl NoEnabledProvider, tr, w))"
| "GetIP_loop scan run (pCfg # rest) errors tr w =
     (if \<not> Enabled pCfg then GetIP_loop scan run rest errors tr w
      else case newProvider scan pCfg of
        None \<Rightarrow> GetIP_loop scan run rest errors tr w
      | Some p \<Rightarrow>
          (case run p w of
             ((ip, source, err), w') \<Rightarrow>
               if err = None \<and> ip \<noteq> []
               then (Inr (ip, if source = [] then Type pCfg else source),
                     tr @ [(pCfg, (ip, source, err))], w')
               else (case err of
                       Some e \<Rightarrow>
                         GetIP_loop scan run rest (errors @ [errMsg (Type pCfg) e])
                           (tr @ [(pCfg, (ip, source, err))]) w'
                     | None \<Rightarrow>
                         GetIP_loop scan run rest errors
                           (tr @ [(pCfg, (ip, source, err))]) w')))"

definition GetIP ::
  "(string \<Rightarrow> int option) \<Rightarrow> 'w discover \<Rightarrow> AppConfig \<Rightarrow> 'w \<Rightarrow>
   (selector_error + string \<times> string) \<times> attempts \<times> 'w" where
  "GetIP scan run cfg w = GetIP_loop scan run (IPProviders cfg) [] [] w"

text \<open>
  Vocabulary for the statements about the selector: the configurations that lead to an
  attempt, a successful reply, the source label that is returned, the labelled failures
  of a list of attempts, and the attempts that consulting a list of configurations in
  order makes in the outside world.
\<close>

definition attempted :: "(string \<Rightarrow> int option) \<Rightarrow> IPProviderConfig list \<Rightarrow> IPProviderConfig list" where
  "attempted scan cfgs = filter (\<lambda>c. Enabled c \<and> newProvider scan c \<noteq> None) cfgs"

definition succeeded :: "reply \<Rightarrow> bool" where
  "succeeded r = (case r of (ip, source, err) \<Rightarrow> err = None \<and> ip \<noteq> [])"

definition source_label :: "IPProviderConfig \<times> reply \<Rightarrow> string" where
  "source_label a = (case a of (c, ip, source, err) \<Rightarrow> if source = [] then Type c else source)"

fun failure_labels :: "attempts \<Rightarrow> string list" where
  "failure_labels [] = []"
| "failure_labels ((c, ip, source, Some e) # xs) = errMsg (Type c) e # failure_labels xs"
| "failure_labels ((c, ip, source, None) # xs) = failure_labels xs"

fun consult :: "(string \<Rightarrow> int option) \<Rightarrow> 'w discover \<Rightarrow> IPProviderConfig list \<Rightarrow> 'w \<Rightarrow> attempts \<times> 'w" where
  "consult scan run [] w = ([], w)"
| "consult scan run (c # cs) w =
     (case newProvider scan c of
        None \<Rightarrow> consult scan run cs w
      | Some p \<Rightarrow>
          (case run p w of
             (r, w1) \<Rightarrow> (case consult scan run cs w1 of (tr, w2) \<Rightarrow> ((c, r) # tr, w2))))"

definition reply_error :: "reply \<Rightarrow> string option" where
  "reply_error r = (case r of (ip, source, err) \<Rightarrow> err)"

definition failure_label :: "IPProviderConfig \<times> reply \<Rightarrow> string" where
  "failure_label a =
     (case a of (c, ip, source, err) \<Rightarrow> errMsg (Type c) (case err of Some e \<Rightarrow> e | None \<Rightarrow> []))"

text \<open>
  A concrete outside world for the examples: every STUN attempt times out, every router
  attempt answers 198.51.100.7 without a source label; the state of the world counts the
  attempts made.
\<close>

definition scan_none :: "string \<Rightarrow> int option" where
  "scan_none s = None"

definition run_example :: "nat discover" where
  "run_example p n =
     (case p of
        STUNProvider server \<Rightarrow> (([], [], Some ''timeout''), Suc n)
      | RouterProvider t h po u pw k kp i hk \<Rightarrow> ((''198.51.100.7'', [], None), Suc n))"

definition stun_cfg :: "bool \<Rightarrow> IPProviderConfig" where
  "stun_cfg en = \<lparr>Type = ''stun'', Enabled = en, Properties = Map.empty\<rparr>"

definition router_cfg :: IPProviderConfig where
  "router_cfg = \<lparr>Type = ''router_ssh'', Enabled = True,
                 Properties = [''host'' \<mapsto> ''192.168.1.1'', ''type'' \<mapsto> ''openwrt'']\<rparr>"

definition http_cfg :: IPProviderConfig where
  "http_cfg = \<lparr>Type = ''http'', Enabled = True, Properties = Map.empty\<rparr>"

definition with_providers :: "IPProviderConfig list \<Rightarrow> AppConfig" where
  "with_providers ps =
     \<lparr>IPProviders = ps, CloudflareAccounts = [],
      Intervals = \<lparr>IPCheck = ''5m'', DNSUpdate = ''1m'', HistoryRetention = ''30d''\<rparr>\<rparr>"


section \<open>DNS synchroniser (package dns, CloudflareUpdater)\<close>

text \<open>
  \<open>time.Duration\<close> counts nanoseconds in a signed 64-bit integer. The durations of
  this package are the three constants below and \<open>min (backoff * 2) maxBackoff\<close>,
  which stays between one and ten seconds (lemma \<open>next_backoff_bounds\<close>), so
  unbounded integers model them without wrap-around.
\<close>

definition Second :: int where
  "Second = 1000000000"

definition maxRetries :: nat where
  "maxRetries = 3"

definition initialBackoff :: int where
  "initialBackoff = 1 * Second"

definition maxBackoff :: int where
  "maxBackoff = 10 * Second"

text \<open>
  The fields of \<open>cloudflare.DNSRecord\<close> that the package reads.
\<close>

record DNSRecord =
  ID :: string
  Content :: string
  Proxied :: "bool option"

text \<open>
  The Cloudflare client library is not part of the repository: it is a parameter of the
  model. The client that \<open>NewWithAPIToken\<close> builds is identified by its token, the first
  argument of the four remote calls. A remote call takes the state \<open>'w\<close> of the remote
  side and yields its answer (an error message or the result), the time it took and the
  next state of the remote side. The arguments are those the source passes:
  \<open>ZoneIDByName api zoneName\<close>, \<open>ListDNSRecords api zoneID Name Type\<close>,
  \<open>CreateDNSRecord api zoneID Type Name Content TTL Proxied\<close> and
  \<open>UpdateDNSRecord api zoneID ID Type Name Content TTL Proxied\<close>.
\<close>

record 'w cloudflare =
  NewWithAPIToken :: "string \<Rightarrow> string option"
  ZoneIDByName :: "string \<Rightarrow> string \<Rightarrow> 'w \<Rightarrow> ((string + string) \<times> int) \<times> 'w"
  ListDNSRecords ::
    "string \<Rightarrow> string \<Rightarrow> string \<Rightarrow> string \<Rightarrow> 'w \<Rightarrow> ((string + DNSRecord list) \<times> int) \<times> 'w"
  CreateDNSRecord ::
    "string \<Rightarrow> string \<Rightarrow> string \<Rightarrow> string \<Rightarrow> string \<Rightarrow> int \<Rightarrow> bool option \<Rightarrow> 'w \<Rightarrow>
     (string option \<times> int) \<times> 'w"
  UpdateDNSRecord ::
    "string \<Rightarrow> string \<Rightarrow> string \<Rightarrow> string \<Rightarrow> string \<Rightarrow> string \<Rightarrow> int \<Rightarrow> bool option \<Rightarrow> 'w \<Rightarrow>
     (string option \<times> int) \<times> 'w"

text \<open>
  The lines the package writes with \<open>log.Printf\<close>, one constructor per format string,
  with the arguments of the call.
\<close>

datatype log_line =
    LogClientFailed string string
  | LogDebugToken string string nat
  | LogZoneIDFailed string string string
  | LogRecordFailed string string
  | LogRetryZoneID string string nat nat
  | LogRetryRecord string nat nat
  | LogCreated string string
  | LogUnchanged string string
  | LogUpdated string string

text \<open>
  Everything the synchroniser does to the outside is recorded in a trace, in the order
  done: the remote calls with their arguments, the outcome of each backoff wait (the
  timer fired, or the context was done first) with the backoff asked for, the rows handed
  to \<open>DB.AddDNSUpdate\<close> (accountName, ip, recordType, domain, success, errorMsg), and
  the log lines.
\<close>

datatype event =
    ZoneIDByName_call string string
  | ListDNSRecords_call string string string string
  | CreateDNSRecord_call string string string string string int "bool option"
  | UpdateDNSRecord_call string string string string string string int "bool option"
  | TimerFired int
  | CtxDone int
  | AddDNSUpdate string string string string bool string
  | Log log_line

record 'w exec =
  remote :: 'w
  clock :: int
  trace :: "event list"

definition emit :: "event \<Rightarrow> 'w exec \<Rightarrow> 'w exec" where
  "emit e s = s\<lparr>trace := trace s @ [e]\<rparr>"

definition api_call :: "event \<Rightarrow> ('w \<Rightarrow> ('a \<times> int) \<times> 'w) \<Rightarrow> 'w exec \<Rightarrow> 'a \<times> 'w exec" where
  "api_call e f s =
     (case f (remote s) of
        ((r, dt), w') \<Rightarrow> (r, s\<lparr>remote := w', clock := clock s + dt, trace := trace s @ [e]\<rparr>))"

definition ctx_err :: string where
  "ctx_err = ''context deadline exceeded''"

text \<open>
  The wait before a retry:
  \<^verbatim>\<open>select { case <-ctx.Done(): return ctx.Err(); case <-time.After(backoff): }\<close>.
  The context of a zone is done when its deadline has passed. When the deadline comes
  before the timer the wait ends at the deadline (at once when it has already passed);
  otherwise the timer fires after the whole backoff. When both fall on the same instant
  Go may take either case; the model takes the timer.
\<close>

definition backoff_wait :: "int \<Rightarrow> int \<Rightarrow> 'w exec \<Rightarrow> bool \<times> 'w exec" where
  "backoff_wait deadline backoff s =
     (if deadline < clock s + backoff
      then (False, s\<lparr>clock := max (clock s) deadline, trace := trace s @ [CtxDone backoff]\<rparr>)
      else (True, s\<lparr>clock := clock s + backoff, trace := trace s @ [TimerFired backoff]\<rparr>))"

text \<open>
  The head of both retry loops: nothing before the first attempt; before a retry the log
  line, the wait, and then \<open>backoff = min (backoff * 2, maxBackoff)\<close>. The result is
  \<open>None\<close> when the context was done during the wait, and the backoff for the next
  retry otherwise.
\<close>

definition retry_pause :: "log_line \<Rightarrow> int \<Rightarrow> nat \<Rightarrow> int \<Rightarrow> 'w exec \<Rightarrow> int option \<times> 'w exec" where
  "retry_pause line deadline attempt backoff s =
     (if attempt > 0 then
        (case backoff_wait deadline backoff (emit (Log line) s) of
           (False, s1) \<Rightarrow> (None, s1)
         | (True, s1) \<Rightarrow> (Some (min (backoff * 2) maxBackoff), s1))
      else (Some backoff, s))"

definition retry_failed :: "string option \<Rightarrow> string" where
  "retry_failed lastErr =
     [CHR 0xE9, CHR 0x87, CHR 0x8D, CHR 0xE8, CHR 0xAF, CHR 0x95] @ '' 3 '' @
     [CHR 0xE6, CHR 0xAC, CHR 0xA1, CHR 0xE5, CHR 0x90, CHR 0x8E, CHR 0xE4, CHR 0xBB,
      CHR 0x8D, CHR 0xE5, CHR 0xA4, CHR 0xB1, CHR 0xE8, CHR 0xB4, CHR 0xA5] @ '': '' @
     (case lastErr of Some e \<Rightarrow> e | None \<Rightarrow> ''%!w(<nil>)'')"

subsection \<open>updateRecord\<close>

definition updateRecord ::
  "'w cloudflare \<Rightarrow> string \<Rightarrow> string \<Rightarrow> string \<Rightarrow> string \<Rightarrow> 'w exec \<Rightarrow> string option \<times> 'w exec" where
  "updateRecord cf api zoneID domain ip s =
     (case api_call (ListDNSRecords_call api zoneID domain ''A'')
             (ListDNSRecords cf api zoneID domain ''A'') s of
        (Inl err, s1) \<Rightarrow> (Some err, s1)
      | (Inr records, s1) \<Rightarrow>
          (case records of
             [] \<Rightarrow>
               (case api_call (CreateDNSRecord_call api zoneID ''A'' domain ip 1 (Some False))
                       (CreateDNSRecord cf api zoneID ''A'' domain ip 1 (Some False)) s1 of
                  (Some err, s2) \<Rightarrow> (Some err, s2)
                | (None, s2) \<Rightarrow> (None, emit (Log (LogCreated domain ip)) s2))
           | record # _ \<Rightarrow>
               if Content record = ip
               then (None, emit (Log (LogUnchanged domain ip)) s1)
               else
                 (case api_call
                         (UpdateDNSRecord_call api zoneID (ID record) ''A'' domain ip 1
                            (Proxied record))
                         (UpdateDNSRecord cf api zoneID (ID record) ''A'' domain ip 1
                            (Proxied record)) s1 of
                    (Some err, s2) \<Rightarrow> (Some err, s2)
                  | (None, s2) \<Rightarrow> (None, emit (Log (LogUpdated domain ip)) s2))))"

subsection \<open>updateRecordWithRetry and getZoneIDWithRetry\<close>

function updateRecordWithRetry_loop ::
  "'w cloudflare \<Rightarrow> string \<Rightarrow> int \<Rightarrow> string \<Rightarrow> string \<Rightarrow> string \<Rightarrow> string \<Rightarrow>
   nat \<Rightarrow> int \<Rightarrow> string option \<Rightarrow> 'w exec \<Rightarrow> string option \<times> 'w exec" where
  "updateRecordWithRetry_loop cf api deadline zoneID domain ip accountName attempt backoff lastErr s =
     (if attempt \<le> maxRetries then
        (case retry_pause (LogRetryRecord domain attempt maxRetries) deadline attempt backoff s of
           (None, s1) \<Rightarrow> (Some ctx_err, s1)
         | (Some backoff', s1) \<Rightarrow>
             (case updateRecord cf api zoneID domain ip s1 of
                (None, s2) \<Rightarrow> (None, s2)
              | (Some err, s2) \<Rightarrow>
                  updateRecordWithRetry_loop cf api deadline zoneID domain ip accountName
                    (Suc attempt) backoff' (Some err) s2))
      else (Some (retry_failed lastErr), s))"
  by pat_completeness auto
termination
  by (relation "measure (\<lambda>(cf, api, deadline, zoneID, domain, ip, accountName, attempt, rest).
        Suc maxRetries - attempt)") auto

definition updateRecordWithRetry ::
  "'w cloudflare \<Rightarrow> string \<Rightarrow> int \<Rightarrow> string \<Rightarrow> string \<Rightarrow> string \<Rightarrow> string \<Rightarrow> 'w exec \<Rightarrow>
   string option \<times> 'w exec" where
  "updateRecordWithRetry cf api deadline zoneID domain ip accountName s =
     updateRecordWithRetry_loop cf api deadline zoneID domain ip accountName 0 initialBackoff None s"

function getZoneIDWithRetry_loop ::
  "'w cloudflare \<Rightarrow> string \<Rightarrow> int \<Rightarrow> string \<Rightarrow> string \<Rightarrow>
   nat \<Rightarrow> int \<Rightarrow> string option \<Rightarrow> 'w exec \<Rightarrow> (string + string) \<times> 'w exec" where
  "getZoneIDWithRetry_loop cf api deadline zoneName accountName attempt backoff lastErr s =
     (if attempt \<le> maxRetries then
        (case retry_pause (LogRetryZoneID accountName zoneName attempt maxRetries)
                deadline attempt backoff s of
           (None, s1) \<Rightarrow> (Inl ctx_err, s1)
         | (Some backoff', s1) \<Rightarrow>
             (case api_call (ZoneIDByName_call api zoneName) (ZoneIDByName cf api zoneName) s1 of
                (Inr zoneID, s2) \<Rightarrow> (Inr zoneID, s2)
              | (Inl err, s2) \<Rightarrow>
                  getZoneIDWithRetry_loop cf api deadline zoneName accountName
                    (Suc attempt) backoff' (Some err) s2))
      else (Inl (retry_failed lastErr), s))"
  by pat_completeness auto
termination
  by (relation "measure (\<lambda>(cf, api, deadline, zoneName, accountName, attempt, rest).
        Suc maxRetries - attempt)") auto

definition getZoneIDWithRetry ::
  "'w cloudflare \<Rightarrow> string \<Rightarrow> int \<Rightarrow> string \<Rightarrow> string \<Rightarrow> 'w exec \<Rightarrow> (string + string) \<times> 'w exec" where
  "getZoneIDWithRetry cf api deadline zoneName accountName s =
     getZoneIDWithRetry_loop cf api deadline zoneName accountName 0 initialBackoff None s"

subsection \<open>UpdateIP\<close>

text \<open>
  The updater holds the configuration and the database handle; \<open>c.Config.Get()\<close> yields
  the snapshot \<open>Config\<close>, and \<open>DB_present\<close> tells whether \<open>c.DB\<close> is not nil.
\<close>

record CloudflareUpdater =
  Config :: AppConfig
  DB_present :: bool

definition fullDomain :: "string \<Rightarrow> string \<Rightarrow> string" where
  "fullDomain record zoneName =
     (if record \<noteq> ''@'' \<and> record \<noteq> [] then record @ ''.'' @ zoneName else zoneName)"

definition AddDNSUpdate_if :: "bool \<Rightarrow> event \<Rightarrow> 'w exec \<Rightarrow> 'w exec" where
  "AddDNSUpdate_if db e s = (if db then emit e s else s)"

fun update_records ::
  "'w cloudflare \<Rightarrow> bool \<Rightarrow> string \<Rightarrow> int \<Rightarrow> string \<Rightarrow> string \<Rightarrow> string \<Rightarrow> string \<Rightarrow>
   string list \<Rightarrow> 'w exec \<Rightarrow> 'w exec" where
  "update_records cf db api deadline zoneID zoneName accountName newIP [] s = s"
| "update_records cf db api deadline zoneID zoneName accountName newIP (record # rest) s =
     (case updateRecordWithRetry cf api deadline zoneID (fullDomain record zoneName) newIP
             accountName s of
        (Some err, s1) \<Rightarrow>
          update_records cf db api deadline zoneID zoneName accountName newIP rest
            (emit (Log (LogRecordFailed (fullDomain record zoneName) err))
               (AddDNSUpdate_if db
                  (AddDNSUpdate accountName newIP ''A'' (fullDomain record zoneName) False err) s1))
      | (None, s1) \<Rightarrow>
          update_records cf db api deadline zoneID zoneName accountName newIP rest
            (AddDNSUpdate_if db
               (AddDNSUpdate accountName newIP ''A'' (fullDomain record zoneName) True []) s1))"

text \<open>
  The body of the loop over the zones of an account: a context with a timeout of sixty
  seconds from now, the zone lookup, and the loop over the records of the zone.
\<close>

definition update_zone ::
  "'w cloudflare \<Rightarrow> bool \<Rightarrow> string \<Rightarrow> string \<Rightarrow> string \<Rightarrow> Zone \<Rightarrow> 'w exec \<Rightarrow> 'w exec" where
  "update_zone cf db api accountName newIP zone s =
     (let deadline = clock s + 60 * Second in
      case getZoneIDWithRetry cf api deadline (ZoneName zone) accountName s of
        (Inl err, s1) \<Rightarrow> emit (Log (LogZoneIDFailed accountName (ZoneName zone) err)) s1
      | (Inr zoneID, s1) \<Rightarrow>
          update_records cf db api deadline zoneID (ZoneName zone) accountName newIP
            (Records zone) s1)"

fun update_zones ::
  "'w cloudflare \<Rightarrow> bool \<Rightarrow> string \<Rightarrow> string \<Rightarrow> string \<Rightarrow> Zone list \<Rightarrow> 'w exec \<Rightarrow> 'w exec" where
  "update_zones cf db api accountName newIP [] s = s"
| "update_zones cf db api accountName newIP (zone # rest) s =
     update_zones cf db api accountName newIP rest (update_zone cf db api accountName newIP zone s)"

definition tokenPrefix :: "string \<Rightarrow> string" where
  "tokenPrefix token =
     (if length token \<ge> 4 then take 4 token @ ''...''
      else if length token > 0 then token
      else ''EMPTY'')"

fun update_accounts ::
  "'w cloudflare \<Rightarrow> bool \<Rightarrow> string \<Rightarrow> CloudflareAccount list \<Rightarrow> 'w exec \<Rightarrow> 'w exec" where
  "update_accounts cf db newIP [] s = s"
| "update_accounts cf db newIP (account # rest) s =
     (if APIToken account = [] then update_accounts cf db newIP rest s
      else case NewWithAPIToken cf (APIToken account) of
        Some err \<Rightarrow>
          update_accounts cf db newIP rest (emit (Log (LogClientFailed (Name account) err)) s)
      | None \<Rightarrow>
          update_accounts cf db newIP rest
            (update_zones cf db (APIToken account) (Name account) newIP (Zones account)
               (emit (Log (LogDebugToken (Name account) (tokenPrefix (APIToken account))
                             (length (APIToken account)))) s)))"

definition UpdateIP ::
  "'w cloudflare \<Rightarrow> CloudflareUpdater \<Rightarrow> string \<Rightarrow> 'w exec \<Rightarrow> string option \<times> 'w exec" where
  "UpdateIP cf c newIP s =
     (None, update_accounts cf (DB_present c) newIP (CloudflareAccounts (Config c)) s)"

subsection \<open>Observations on a trace\<close>

text \<open>
  The backoffs asked for by the waits of a trace, the attempts (zone lookups and record
  lookups: every attempt of either retry loop starts with one), the waits that the
  retry head makes when every attempt fails, and the shape of a trace in which the
  context was done: the wait it ended is the last event and the result is the
  context's error.
\<close>

primrec backoffs :: "event list \<Rightarrow> int list" where
  "backoffs [] = []"
| "backoffs (e # es) =
     (case e of TimerFired d \<Rightarrow> d # backoffs es | CtxDone d \<Rightarrow> d # backoffs es | _ \<Rightarrow> backoffs es)"

definition is_attempt :: "event \<Rightarrow> bool" where
  "is_attempt e = (case e of ZoneIDByName_call a z \<Rightarrow> True | ListDNSRecords_call a z n t \<Rightarrow> True | _ \<Rightarrow> False)"

definition is_CtxDone :: "event \<Rightarrow> bool" where
  "is_CtxDone e = (case e of CtxDone d \<Rightarrow> True | _ \<Rightarrow> False)"

definition attempts_made :: "event list \<Rightarrow> nat" where
  "attempts_made evs = length (filter is_attempt evs)"

primrec schedule :: "nat \<Rightarrow> int \<Rightarrow> int list" where
  "schedule 0 backoff = []"
| "schedule (Suc n) backoff = backoff # schedule n (min (backoff * 2) maxBackoff)"

definition ctx_ends :: "bool \<Rightarrow> event list \<Rightarrow> bool" where
  "ctx_ends is_ctx_err evs =
     (if list_ex is_CtxDone evs
      then evs \<noteq> [] \<and> is_CtxDone (last evs) \<and> \<not> list_ex is_CtxDone (butlast evs) \<and> is_ctx_err
      else True)"

definition quiet :: "event list \<Rightarrow> bool" where
  "quiet evs = (backoffs evs = [] \<and> \<not> list_ex is_CtxDone evs)"

section \<open>A remote side for the examples\<close>

text \<open>
  An in-memory stand-in for the DNS provider, used where a statement needs a concrete
  remote side: zones by name, the A records of each zone and name, and a script of
  faults. Every remote call first consumes the next entry of the script, the time the
  call takes and the error it fails with, if any; when the script is used up a call
  takes no time and succeeds. A call that does not fail answers from the store: a lookup
  lists the records of the name, a creation appends a record to them, an update
  rewrites the records of the name that carry the given ID.
\<close>

record store =
  zone_ids :: "string \<rightharpoonup> string"
  dns :: "string \<times> string \<Rightarrow> DNSRecord list"
  faults :: "(int \<times> string option) list"

definition take_fault :: "store \<Rightarrow> (int \<times> string option) \<times> store" where
  "take_fault w = (case faults w of [] \<Rightarrow> ((0, None), w) | f # fs \<Rightarrow> (f, w\<lparr>faults := fs\<rparr>))"

definition store_ZoneIDByName ::
  "string \<Rightarrow> string \<Rightarrow> store \<Rightarrow> ((string + string) \<times> int) \<times> store" where
  "store_ZoneIDByName api zoneName w =
     (case take_fault w of
        ((dt, Some err), w1) \<Rightarrow> ((Inl err, dt), w1)
      | ((dt, None), w1) \<Rightarrow>
          (case zone_ids w1 zoneName of
             None \<Rightarrow> ((Inl ''zone could not be found'', dt), w1)
           | Some zoneID \<Rightarrow> ((Inr zoneID, dt), w1)))"

definition store_ListDNSRecords ::
  "string \<Rightarrow> string \<Rightarrow> string \<Rightarrow> string \<Rightarrow> store \<Rightarrow> ((string + DNSRecord list) \<times> int) \<times> store" where
  "store_ListDNSRecords api zoneID name type w =
     (case take_fault w of
        ((dt, Some err), w1) \<Rightarrow> ((Inl err, dt), w1)
      | ((dt, None), w1) \<Rightarrow> ((Inr (dns w1 (zoneID, name)), dt), w1))"

definition store_CreateDNSRecord ::
  "string \<Rightarrow> string \<Rightarrow> string \<Rightarrow> string \<Rightarrow> string \<Rightarrow> int \<Rightarrow> bool option \<Rightarrow> store \<Rightarrow>
   (string option \<times> int) \<times> store" where
  "store_CreateDNSRecord api zoneID type name content ttl proxied w =
     (case take_fault w of
        ((dt, Some err), w1) \<Rightarrow> ((Some err, dt), w1)
      | ((dt, None), w1) \<Rightarrow>
          ((None, dt),
           w1\<lparr>dns := (dns w1)((zoneID, name) :=
                  dns w1 (zoneID, name) @
                  [\<lparr>ID = ''id-'' @ name, Content = content, Proxied = proxied\<rparr>])\<rparr>))"

definition store_UpdateDNSRecord ::
  "string \<Rightarrow> string \<Rightarrow> string \<Rightarrow> string \<Rightarrow> string \<Rightarrow> string \<Rightarrow> int \<Rightarrow> bool option \<Rightarrow> store \<Rightarrow>
   (string option \<times> int) \<times> store" where
  "store_UpdateDNSRecord api zoneID recordID type name content ttl proxied w =
     (case take_fault w of
        ((dt, Some err), w1) \<Rightarrow> ((Some err, dt), w1)
      | ((dt, None), w1) \<Rightarrow>
          ((None, dt),
           w1\<lparr>dns := (dns w1)((zoneID, name) :=
                  map (\<lambda>r. if ID r = recordID then r\<lparr>Content := content, Proxied := proxied\<rparr> else r)
                    (dns w1 (zoneID, name)))\<rparr>))"

definition store_api :: "string list \<Rightarrow> store cloudflare" where
  "store_api rejected =
     \<lparr>NewWithAPIToken = (\<lambda>token. if token \<in> set rejected then Some ''invalid credentials'' else None),
      ZoneIDByName = store_ZoneIDByName,
      ListDNSRecords = store_ListDNSRecords,
      CreateDNSRecord = store_CreateDNSRecord,
      UpdateDNSRecord = store_UpdateDNSRecord\<rparr>"

definition example_store :: "(int \<times> string option) list \<Rightarrow> store" where
  "example_store fs =
     \<lparr>zone_ids = [''example.com'' \<mapsto> ''zone1''],
      dns = (\<lambda>k. [])((''zone1'', ''example.com'') :=
              [\<lparr>ID = ''rec1'', Content = ''203.0.113.1'', Proxied = Some True\<rparr>]),
      faults = fs\<rparr>"

definition start :: "'w \<Rightarrow> 'w exec" where
  "start w = \<lparr>remote = w, clock = 0, trace = []\<rparr>"

definition fails_twice :: "(int \<times> string option) list" where
  "fails_twice = [(Second, Some ''HTTP 502''), (Second, Some ''HTTP 502'')]"

definition always_fails :: "(int \<times> string option) list" where
  "always_fails =
     [(Second, Some ''HTTP 502''), (Second, Some ''HTTP 502''),
      (Second, Some ''HTTP 502''), (Second, Some ''HTTP 502'')]"

definition retry_example :: "string option \<times> store exec" where
  "retry_example =
     updateRecordWithRetry (store_api []) ''token'' (60 * Second) ''zone1'' ''example.com''
       ''203.0.113.2'' ''home'' (start (example_store fails_twice))"

definition zone_retry_example :: "(string + string) \<times> store exec" where
  "zone_retry_example =
     getZoneIDWithRetry (store_api []) ''token'' (2 * Second) ''example.com'' ''home''
       (start (example_store always_fails))"


subsection \<open>Reconciled records\<close>

text \<open>
  The remote calls that change records; the records of a zone and name whose first A
  record carries the address; the zone IDs and names that a configuration reconciles on
  the store (the records of every zone the store knows, for every account with a token
  the client accepts); a store on which all of them carry the address; and the two
  invariants of a run on the store: nothing changed and no mutating call made, and no
  fault pending with a set of names reconciled.
\<close>

definition is_mutation :: "event \<Rightarrow> bool" where
  "is_mutation e =
     (case e of CreateDNSRecord_call a z t n c ttl p \<Rightarrow> True
      | UpdateDNSRecord_call a z i t n c ttl p \<Rightarrow> True
      | _ \<Rightarrow> False)"

definition mutations :: "event list \<Rightarrow> event list" where
  "mutations evs = filter is_mutation evs"

definition head_is :: "string \<Rightarrow> (string \<times> string \<Rightarrow> DNSRecord list) \<Rightarrow> string \<times> string \<Rightarrow> bool" where
  "head_is ip d k = (case d k of [] \<Rightarrow> False | r # rs \<Rightarrow> Content r = ip)"

definition zone_keys :: "(string \<rightharpoonup> string) \<Rightarrow> Zone \<Rightarrow> (string \<times> string) set" where
  "zone_keys zs zone =
     (case zs (ZoneName zone) of
        None \<Rightarrow> {}
      | Some zoneID \<Rightarrow> (\<lambda>record. (zoneID, fullDomain record (ZoneName zone))) ` set (Records zone))"

definition account_keys :: "string list \<Rightarrow> (string \<rightharpoonup> string) \<Rightarrow> CloudflareAccount \<Rightarrow> (string \<times> string) set" where
  "account_keys rejected zs account =
     (if APIToken account = [] \<or> APIToken account \<in> set rejected then {}
      else (\<Union>zone \<in> set (Zones account). zone_keys zs zone))"

definition settled :: "string \<Rightarrow> string list \<Rightarrow> CloudflareAccount list \<Rightarrow> store \<Rightarrow> bool" where
  "settled ip rejected accounts w =
     (\<forall>account \<in> set accounts. \<forall>k \<in> account_keys rejected (zone_ids w) account. head_is ip (dns w) k)"

definition unchanged :: "(string \<times> string \<Rightarrow> DNSRecord list) \<Rightarrow> (string \<rightharpoonup> string) \<Rightarrow> event list \<Rightarrow> store exec \<Rightarrow> bool" where
  "unchanged d zs m s = (dns (remote s) = d \<and> zone_ids (remote s) = zs \<and> mutations (trace s) = m)"

definition reconciled :: "string \<Rightarrow> (string \<rightharpoonup> string) \<Rightarrow> (string \<times> string) set \<Rightarrow> store exec \<Rightarrow> bool" where
  "reconciled ip zs ks s =
     (faults (remote s) = [] \<and> zone_ids (remote s) = zs \<and> (\<forall>k \<in> ks. head_is ip (dns (remote s)) k))"

text \<open>
  The log lines of a failed zone lookup and of a failed record: the failures of a run.
  A run keeps a set of names when the zones of the store and the failures logged are as
  they were and every name of the set carries the address; it progresses on a set of
  names when it keeps them or has logged a further failure.
\<close>

definition is_failure :: "event \<Rightarrow> bool" where
  "is_failure e =
     (case e of Log (LogZoneIDFailed a z err) \<Rightarrow> True
      | Log (LogRecordFailed d err) \<Rightarrow> True
      | _ \<Rightarrow> False)"

definition failures :: "event list \<Rightarrow> event list" where
  "failures evs = filter is_failure evs"

definition kept :: "string \<Rightarrow> (string \<rightharpoonup> string) \<Rightarrow> event list \<Rightarrow> (string \<times> string) set \<Rightarrow> store exec \<Rightarrow> bool" where
  "kept ip zs F ks s =
     (zone_ids (remote s) = zs \<and> failures (trace s) = F \<and> (\<forall>k \<in> ks. head_is ip (dns (remote s)) k))"

definition progress :: "string \<Rightarrow> (string \<rightharpoonup> string) \<Rightarrow> event list \<Rightarrow> (string \<times> string) set \<Rightarrow> store exec \<Rightarrow> bool" where
  "progress ip zs F ks s =
     (kept ip zs F ks s \<or> (zone_ids (remote s) = zs \<and> length F < length (failures (trace s))))"

subsection \<open>Example runs and the audit of skipped records\<close>

text \<open>
  An updater with one account and one zone, a store whose name carries two A records,
  two synchronisations in a row on the example store (the second with a fault pending),
  a synchronisation whose lookups of the record all fail and the one that follows it, a
  synchronisation whose zone lookup fails twice before it succeeds and the one that
  follows it, and a synchronisation to the address the store already holds. A trace records its
  skips when every log line of a skipped record is followed at once by the success row
  handed to \<open>AddDNSUpdate\<close> for the same domain and address; a skip is pending when
  that log line is the last event.
\<close>

definition example_account :: "string list \<Rightarrow> CloudflareAccount" where
  "example_account records =
     \<lparr>Name = ''home'', APIToken = ''0123456789abcdefghij'',
      Zones = [\<lparr>ZoneName = ''example.com'', Records = records\<rparr>]\<rparr>"

definition example_updater :: "CloudflareAccount list \<Rightarrow> bool \<Rightarrow> CloudflareUpdater" where
  "example_updater accounts db =
     \<lparr>Config = \<lparr>IPProviders = [], CloudflareAccounts = accounts,
                 Intervals = \<lparr>IPCheck = ''5m'', DNSUpdate = ''1m'', HistoryRetention = ''30d''\<rparr>\<rparr>,
      DB_present = db\<rparr>"

definition two_records_store :: store where
  "two_records_store =
     \<lparr>zone_ids = [''example.com'' \<mapsto> ''zone1''],
      dns = (\<lambda>k. [])((''zone1'', ''example.com'') :=
              [\<lparr>ID = ''rec1'', Content = ''203.0.113.1'', Proxied = None\<rparr>,
               \<lparr>ID = ''rec2'', Content = ''203.0.113.2'', Proxied = None\<rparr>]),
      faults = []\<rparr>"

definition with_faults :: "(int \<times> string option) list \<Rightarrow> store exec \<Rightarrow> store exec" where
  "with_faults fs s = s\<lparr>remote := (remote s)\<lparr>faults := fs\<rparr>\<rparr>"

definition first_sync :: "store exec" where
  "first_sync =
     snd (UpdateIP (store_api []) (example_updater [example_account [''@'', ''www'']] True)
            ''203.0.113.2'' (start (example_store [])))"

definition second_sync :: "store exec" where
  "second_sync =
     snd (UpdateIP (store_api []) (example_updater [example_account [''@'', ''www'']] True)
            ''203.0.113.2'' (with_faults [(Second, Some ''HTTP 502'')] first_sync))"

definition record_fails :: "(int \<times> string option) list" where
  "record_fails =
     [(0, None), (Second, Some ''HTTP 502''), (Second, Some ''HTTP 502''),
      (Second, Some ''HTTP 502''), (Second, Some ''HTTP 502'')]"

definition failed_sync :: "store exec" where
  "failed_sync =
     snd (UpdateIP (store_api []) (example_updater [example_account [''@'']] True)
            ''203.0.113.2'' (start (example_store record_fails)))"

definition retried_sync :: "store exec" where
  "retried_sync =
     snd (UpdateIP (store_api []) (example_updater [example_account [''@'']] True)
            ''203.0.113.2'' failed_sync)"

definition transient_sync :: "store exec" where
  "transient_sync =
     snd (UpdateIP (store_api []) (example_updater [example_account [''@'']] True)
            ''203.0.113.2'' (start (example_store fails_twice)))"

definition repeated_sync :: "store exec" where
  "repeated_sync =
     snd (UpdateIP (store_api []) (example_updater [example_account [''@'']] True)
            ''203.0.113.2'' (with_faults [] transient_sync))"

definition matching_sync :: "bool \<Rightarrow> store exec" where
  "matching_sync db =
     snd (UpdateIP (store_api []) (example_updater [example_account [''@'']] db)
            ''203.0.113.1'' (start (example_store [])))"

definition is_skip :: "event \<Rightarrow> bool" where
  "is_skip e = (case e of Log (LogUnchanged d ip) \<Rightarrow> True | _ \<Rightarrow> False)"

definition records_skip :: "event \<Rightarrow> event \<Rightarrow> bool" where
  "records_skip e e' =
     (case e of
        Log (LogUnchanged domain ip) \<Rightarrow>
          (case e' of
             AddDNSUpdate account ip' recordType domain' success errorMsg \<Rightarrow>
               ip' = ip \<and> recordType = ''A'' \<and> domain' = domain \<and> success \<and> errorMsg = []
           | _ \<Rightarrow> False)
      | _ \<Rightarrow> True)"

fun skips_recorded :: "event list \<Rightarrow> bool" where
  "skips_recorded [] = True"
| "skips_recorded [e] = (\<not> is_skip e)"
| "skips_recorded (e # e' # es) = (records_skip e e' \<and> skips_recorded (e' # es))"

definition skip_pending :: "string \<Rightarrow> string \<Rightarrow> event list \<Rightarrow> bool" where
  "skip_pending domain ip evs =
     (skips_recorded evs \<or>
      (evs \<noteq> [] \<and> last evs = Log (LogUnchanged domain ip) \<and> skips_recorded (butlast evs)))"

subsection \<open>The retry policy in the words of the specification\<close>

text \<open>
  A remote call is tried; when it fails and fewer than the given number of retries have
  been made, the retry is logged and a wait of the current backoff follows, which ends
  at the deadline of the operation with the context's error when the deadline comes
  before the backoff has elapsed; after a whole wait the backoff is doubled, up to ten
  seconds, and the call is tried again. When the last try fails, the error says that
  the retries are used up. \<open>line k\<close> is the log line of retry \<open>k\<close>; the argument
  \<open>k\<close> of \<open>spec_retry\<close> counts the retries made so far. The two remote calls that
  are retried are the update of a record and the lookup of a zone.
\<close>

fun spec_retry ::
  "(nat \<Rightarrow> log_line) \<Rightarrow> int \<Rightarrow> ('w exec \<Rightarrow> (string + 'a) \<times> 'w exec) \<Rightarrow> nat \<Rightarrow> nat \<Rightarrow> int \<Rightarrow>
   'w exec \<Rightarrow> (string + 'a) \<times> 'w exec" where
  "spec_retry line deadline try 0 k backoff s =
     (case try s of
        (Inr v, s1) \<Rightarrow> (Inr v, s1)
      | (Inl err, s1) \<Rightarrow> (Inl (retry_failed (Some err)), s1))"
| "spec_retry line deadline try (Suc retries) k backoff s =
     (case try s of
        (Inr v, s1) \<Rightarrow> (Inr v, s1)
      | (Inl err, s1) \<Rightarrow>
          (let s2 = emit (Log (line (Suc k))) s1 in
           if deadline < clock s2 + backoff
           then (Inl ctx_err,
                 s2\<lparr>clock := max (clock s2) deadline, trace := trace s2 @ [CtxDone backoff]\<rparr>)
           else spec_retry line deadline try retries (Suc k) (min (backoff * 2) (10 * Second))
                  (s2\<lparr>clock := clock s2 + backoff, trace := trace s2 @ [TimerFired backoff]\<rparr>)))"

definition try_update ::
  "'w cloudflare \<Rightarrow> string \<Rightarrow> string \<Rightarrow> string \<Rightarrow> string \<Rightarrow> 'w exec \<Rightarrow> (string + unit) \<times> 'w exec" where
  "try_update cf api zoneID domain ip s =
     (case updateRecord cf api zoneID domain ip s of
        (None, s1) \<Rightarrow> (Inr (), s1)
      | (Some err, s1) \<Rightarrow> (Inl err, s1))"

definition try_zone ::
  "'w cloudflare \<Rightarrow> string \<Rightarrow> string \<Rightarrow> 'w exec \<Rightarrow> (string + string) \<times> 'w exec" where
  "try_zone cf api zoneName s =
     api_call (ZoneIDByName_call api zoneName) (ZoneIDByName cf api zoneName) s"

definition as_error :: "(string + unit) \<times> 's \<Rightarrow> string option \<times> 's" where
  "as_error r = (case r of (Inl err, s) \<Rightarrow> (Some err, s) | (Inr v, s) \<Rightarrow> (None, s))"

text \<open>
  The attempts and the waits of a trace, in their order. They alternate when the first
  is an attempt, every attempt but the last is followed by a wait, a wait whose timer
  fired is followed by an attempt, and a wait that the context ended is the last.
\<close>

definition is_wait :: "event \<Rightarrow> bool" where
  "is_wait e = (case e of TimerFired d \<Rightarrow> True | CtxDone d \<Rightarrow> True | _ \<Rightarrow> False)"

definition marks :: "event list \<Rightarrow> event list" where
  "marks evs = filter (\<lambda>e. is_attempt e \<or> is_wait e) evs"

fun alternates :: "event list \<Rightarrow> bool" where
  "alternates [] = False"
| "alternates [e] = is_attempt e"
| "alternates (e # w # es) =
     (is_attempt e \<and>
      (case w of TimerFired d \<Rightarrow> alternates es | CtxDone d \<Rightarrow> es = [] | _ \<Rightarrow> False))"

section \<open>Channels\<close>

text \<open>
  A Go channel: the values buffered in it, its capacity and whether it has been closed.
  An operation on a channel either is done, or would block the goroutine, or panics.
  A send is done when the buffer has room, or when the buffer is empty and a receiver is
  blocked on the channel (the value is handed over); it would block otherwise; on a
  closed channel it panics. Closing a closed channel panics. The statement
  \<^verbatim>\<open>select { case ch <- v: A; default: B }\<close> takes \<open>B\<close> exactly when the
  send would block.
\<close>

record 'a chan =
  buf :: "'a list"
  cap :: nat
  closed :: bool

datatype 'a attempt = Done 'a | WouldBlock | Panics

definition make_chan :: "nat \<Rightarrow> 'a chan" where
  "make_chan n = \<lparr>buf = [], cap = n, closed = False\<rparr>"

definition chan_send :: "bool \<Rightarrow> 'a \<Rightarrow> 'a chan \<Rightarrow> 'a chan attempt" where
  "chan_send receiver v ch =
     (if closed ch then Panics
      else if length (buf ch) < cap ch then Done (ch\<lparr>buf := buf ch @ [v]\<rparr>)
      else if receiver \<and> buf ch = [] then Done ch
      else WouldBlock)"

definition chan_close :: "'a chan \<Rightarrow> 'a chan attempt" where
  "chan_close ch = (if closed ch then Panics else Done (ch\<lparr>closed := True\<rparr>))"

section \<open>Event hub (package server, websocket.go)\<close>

text \<open>
  A message carries its type and its data; the data of the messages of this program are
  maps from strings to strings, given as lists of pairs. A client is identified by its
  address; \<open>h.clients\<close> is the list of the registered clients in the order in which a
  \<open>range\<close> over the map visits them, which Go leaves open, and \<open>sends\<close> gives the
  channel \<open>client.send\<close> of every client, made with capacity 256 in
  \<open>handleWebSocket\<close>. \<open>h.broadcast\<close> is unbuffered.
\<close>

record WSMessage =
  msg_Type :: string
  msg_Data :: "(string \<times> string) list"

record Hub =
  clients :: "nat list"
  sends :: "nat \<Rightarrow> WSMessage chan"
  broadcast :: "WSMessage chan"

definition NewHub :: Hub where
  "NewHub = \<lparr>clients = [], sends = (\<lambda>c. make_chan 256), broadcast = make_chan 0\<rparr>"

text \<open>
  The loop over the clients in the \<open>broadcast\<close> case of \<open>Hub.Run\<close>. The clients to
  visit are those registered when the loop starts. The goroutine that drains
  \<open>client.send\<close> is blocked on it only when the buffer is empty, and then the buffer
  has room, so the send does not depend on it.
\<close>

fun broadcast_loop :: "WSMessage \<Rightarrow> nat list \<Rightarrow> Hub \<Rightarrow> Hub attempt" where
  "broadcast_loop message [] h = Done h"
| "broadcast_loop message (client # rest) h =
     (case chan_send False message (sends h client) of
        Done ch \<Rightarrow> broadcast_loop message rest (h\<lparr>sends := (sends h)(client := ch)\<rparr>)
      | WouldBlock \<Rightarrow>
          (case chan_close (sends h client) of
             Done ch \<Rightarrow>
               broadcast_loop message rest
                 (h\<lparr>sends := (sends h)(client := ch),
                    clients := removeAll client (clients h)\<rparr>)
           | WouldBlock \<Rightarrow> WouldBlock
           | Panics \<Rightarrow> Panics)
      | Panics \<Rightarrow> Panics)"

text \<open>
  One turn of the loop of \<open>Hub.Run\<close>, for the value it received on \<open>h.register\<close>,
  \<open>h.unregister\<close> or \<open>h.broadcast\<close>.
\<close>

datatype hub_event = Register nat | Unregister nat | Message WSMessage

fun Run_step :: "hub_event \<Rightarrow> Hub \<Rightarrow> Hub attempt" where
  "Run_step (Register client) h =
     Done (h\<lparr>clients := (if client \<in> set (clients h) then clients h else clients h @ [client])\<rparr>)"
| "Run_step (Unregister client) h =
     (if client \<in> set (clients h) then
        (case chan_close (sends h client) of
           Done ch \<Rightarrow>
             Done (h\<lparr>clients := removeAll client (clients h), sends := (sends h)(client := ch)\<rparr>)
         | WouldBlock \<Rightarrow> WouldBlock
         | Panics \<Rightarrow> Panics)
      else Done h)"
| "Run_step (Message message) h = broadcast_loop message (clients h) h"

text \<open>
  \<open>Hub.Broadcast\<close>: a send on \<open>h.broadcast\<close> in a \<open>select\<close> with a default case.
  \<open>running\<close> tells whether the goroutine of \<open>Hub.Run\<close> is blocked in its
  \<open>select\<close>, ready to receive. The result is the message handed to \<open>Hub.Run\<close>, or
  \<open>None\<close> when the default case dropped it.
\<close>

definition Broadcast :: "bool \<Rightarrow> string \<Rightarrow> (string \<times> string) list \<Rightarrow> Hub \<Rightarrow> WSMessage option attempt" where
  "Broadcast running msgType data h =
     (let msg = \<lparr>msg_Type = msgType, msg_Data = data\<rparr> in
      case chan_send running msg (broadcast h) of
        Done ch \<Rightarrow> Done (Some msg)
      | WouldBlock \<Rightarrow> Done None
      | Panics \<Rightarrow> Panics)"

text \<open>
  The registry is well formed when no client is registered twice and the channel of
  every registered client is open and has the capacity it was made with.
\<close>

definition hub_ok :: "Hub \<Rightarrow> bool" where
  "hub_ok h =
     (distinct (clients h) \<and> \<not> closed (broadcast h) \<and> cap (broadcast h) = 0 \<and>
      buf (broadcast h) = [] \<and>
      (\<forall>c \<in> set (clients h). \<not> closed (sends h c) \<and> cap (sends h c) = 256))"

definition full :: "'a chan \<Rightarrow> bool" where
  "full ch = (\<not> length (buf ch) < cap ch)"

section \<open>Monitoring scheduler (package main, monitorIP) and server state\<close>

record Server =
  LastCheckTime :: int
  CurrentIP :: string
  CurrentSource :: string
  Hub :: "Hub option"
  ConfigUpdateChan :: "unit chan"

text \<open>
  \<open>Server.BroadcastIPChange\<close> calls \<open>Hub.Broadcast\<close> when the server has a hub. A
  message that \<open>Hub.Run\<close> receives is dispatched by its loop; the model joins the two.
\<close>

definition BroadcastIPChange :: "bool \<Rightarrow> string \<Rightarrow> string \<Rightarrow> Server \<Rightarrow> Server attempt" where
  "BroadcastIPChange running newIP source s =
     (case Hub s of
        None \<Rightarrow> Done s
      | Some h \<Rightarrow>
          (case Broadcast running ''ip_change'' [(''ip'', newIP), (''source'', source)] h of
             Done None \<Rightarrow> Done s
           | Done (Some msg) \<Rightarrow>
               (case Run_step (Message msg) h of
                  Done h' \<Rightarrow> Done (s\<lparr>Hub := Some h'\<rparr>)
                | WouldBlock \<Rightarrow> WouldBlock
                | Panics \<Rightarrow> Panics)
           | WouldBlock \<Rightarrow> WouldBlock
           | Panics \<Rightarrow> Panics))"

text \<open>
  The notification of \<open>handleUpdateConfig\<close>: a send on \<open>ConfigUpdateChan\<close>, made with
  capacity 1 in \<open>New\<close>, in a \<open>select\<close> with a default case. The boolean tells whether
  the signal was sent. \<open>waiting\<close> tells whether the scheduler is blocked in the
  \<open>select\<close> of its wait.
\<close>

definition notifyConfigUpdate :: "bool \<Rightarrow> Server \<Rightarrow> (Server \<times> bool) attempt" where
  "notifyConfigUpdate waiting s =
     (case chan_send waiting () (ConfigUpdateChan s) of
        Done ch \<Rightarrow> Done (s\<lparr>ConfigUpdateChan := ch\<rparr>, True)
      | WouldBlock \<Rightarrow> Done (s, False)
      | Panics \<Rightarrow> Panics)"

subsection \<open>The check interval\<close>

definition Minute :: int where
  "Minute = 60 * Second"

text \<open>
  The loop that looks for an enabled provider of kind \<open>router_ssh\<close> or \<open>interface\<close>
  and stops at the first one.
\<close>

fun minInterval_loop :: "IPProviderConfig list \<Rightarrow> int \<Rightarrow> int" where
  "minInterval_loop [] minInterval = minInterval"
| "minInterval_loop (p # ps) minInterval =
     (if Enabled p then
        (if Type p = ''router_ssh'' \<or> Type p = ''interface'' then 1 * Second
         else minInterval_loop ps minInterval)
      else minInterval_loop ps minInterval)"

text \<open>
  \<open>time.ParseDuration\<close> is a parameter: it yields the duration in nanoseconds, or
  \<open>None\<close> for an error. The durations are only compared, so no arithmetic can
  overflow.
\<close>

definition checkInterval :: "(string \<Rightarrow> int option) \<Rightarrow> AppConfig \<Rightarrow> int" where
  "checkInterval ParseDuration cfg =
     (let interval = 5 * Minute in
      if IPCheck (Intervals cfg) \<noteq> [] then
        (case ParseDuration (IPCheck (Intervals cfg)) of
           Some d \<Rightarrow>
             (let interval = d;
                  minInterval = minInterval_loop (IPProviders cfg) (30 * Second)
              in if interval < minInterval then minInterval else interval)
         | None \<Rightarrow> interval)
      else interval)"

subsection \<open>One cycle of the loop\<close>

datatype monitor_log =
    LogRestoredIP string
  | LogIntervalAdjusted int int
  | LogGetIPFailed string
  | LogIPChanged string string string
  | LogHistoryFailed string
  | LogDNSUpdateFailed string
  | LogDNSUpdated string
  | LogConfigUpdate

text \<open>
  The state of the scheduler: its variable \<open>lastIP\<close>, the server, the rows handed to
  \<open>AddIPHistory\<close> (ip, version, source) and to \<open>AddErrorLog\<close> (level, message), the
  log lines, and the state that the DNS updater works on.
\<close>

record 'u Monitor =
  lastIP :: string
  srv :: Server
  ip_history :: "(string \<times> string \<times> string) list"
  error_logs :: "(string \<times> string) list"
  mlog :: "monitor_log list"
  sync :: 'u

definition restore_lastIP :: "string + string list \<Rightarrow> string" where
  "restore_lastIP recent = (case recent of Inr (ip # rest) \<Rightarrow> ip | _ \<Rightarrow> [])"

text \<open>
  How the loop pauses at the end of a cycle: \<open>time.Sleep\<close> for the cooldown after a
  failed discovery, or the wait on the timer of the check interval and on
  \<open>ConfigUpdateChan\<close>.
\<close>

datatype pause = Sleep int | WaitInterval int

definition getip_failed :: string where
  "getip_failed = [CHR 0xE8, CHR 0x8E, CHR 0xB7, CHR 0xE5, CHR 0x8F, CHR 0x96, CHR '' '',
                   CHR ''I'', CHR ''P'', CHR '' '', CHR 0xE5, CHR 0xA4, CHR 0xB1, CHR 0xE8,
                   CHR 0xB4, CHR 0xA5, CHR '':'', CHR '' '']"

text \<open>
  One iteration of the \<open>for\<close> loop up to its pause. The inputs of the iteration are the
  configuration snapshot, the reading of the clock, the reply of \<open>provider.GetIP()\<close>
  and the error of \<open>AddIPHistory\<close>; \<open>update\<close> is the method \<open>UpdateIP\<close> of the
  updater.
\<close>

definition adjust_log :: "(string \<Rightarrow> int option) \<Rightarrow> AppConfig \<Rightarrow> monitor_log list" where
  "adjust_log ParseDuration cfg =
     (if IPCheck (Intervals cfg) \<noteq> [] then
        (case ParseDuration (IPCheck (Intervals cfg)) of
           Some d \<Rightarrow>
             (if d < minInterval_loop (IPProviders cfg) (30 * Second)
              then [LogIntervalAdjusted d (minInterval_loop (IPProviders cfg) (30 * Second))]
              else [])
         | None \<Rightarrow> [])
      else [])"

definition monitor_cycle ::
  "(string \<Rightarrow> int option) \<Rightarrow> (string \<Rightarrow> 'u \<Rightarrow> string option \<times> 'u) \<Rightarrow> AppConfig \<Rightarrow> int \<Rightarrow>
   reply \<Rightarrow> string option \<Rightarrow> 'u Monitor \<Rightarrow> pause \<times> 'u Monitor" where
  "monitor_cycle ParseDuration update cfg now got history_err m =
     (let interval = checkInterval ParseDuration cfg;
          m1 = m\<lparr>mlog := mlog m @ adjust_log ParseDuration cfg\<rparr>;
          m2 = m1\<lparr>srv := (srv m1)\<lparr>LastCheckTime := now\<rparr>\<rparr>
      in case got of
        (currentIP, source, Some err) \<Rightarrow>
          (Sleep (30 * Second),
           m2\<lparr>mlog := mlog m2 @ [LogGetIPFailed err],
              error_logs := error_logs m2 @ [(''error'', getip_failed @ err)]\<rparr>)
      | (currentIP, source, None) \<Rightarrow>
          (let m3 = m2\<lparr>srv := (srv m2)\<lparr>CurrentIP := currentIP, CurrentSource := source\<rparr>\<rparr>
           in if currentIP \<noteq> lastIP m3 then
                (let m4 = m3\<lparr>mlog := mlog m3 @ [LogIPChanged (lastIP m3) currentIP source],
                              ip_history := ip_history m3 @ [(currentIP, ''v4'', source)]\<rparr>;
                     m5 = (case history_err of
                             Some e \<Rightarrow> m4\<lparr>mlog := mlog m4 @ [LogHistoryFailed e]\<rparr>
                           | None \<Rightarrow> m4)
                 in case update currentIP (sync m5) of
                      (Some e, u) \<Rightarrow>
                        (WaitInterval interval,
                         m5\<lparr>sync := u, mlog := mlog m5 @ [LogDNSUpdateFailed e],
                            lastIP := currentIP\<rparr>)
                    | (None, u) \<Rightarrow>
                        (WaitInterval interval,
                         m5\<lparr>sync := u, mlog := mlog m5 @ [LogDNSUpdated currentIP],
                            lastIP := currentIP\<rparr>))
              else (WaitInterval interval, m3)))"

subsection \<open>The wait at the end of a cycle\<close>

text \<open>
  \<^verbatim>\<open>timer := time.NewTimer(checkInterval); select { case <-timer.C: case <-srv.ConfigUpdateChan: }\<close>.
  A signal that is already in the channel is received at once. Otherwise \<open>arrival\<close>
  is the time after the start of the wait at which a signal is sent, if one is sent at
  all: when it comes before the timer fires, the wait ends then; when both fall on the
  same instant Go may take either case and the model takes the timer. The result is the
  time waited and whether a signal ended the wait. A wait that a signal ends logs the
  line of the source.
\<close>

definition wait_interval :: "int \<Rightarrow> int option \<Rightarrow> 'u Monitor \<Rightarrow> (int \<times> bool) \<times> 'u Monitor" where
  "wait_interval interval arrival m =
     (case buf (ConfigUpdateChan (srv m)) of
        x # xs \<Rightarrow>
          ((0, True),
           m\<lparr>srv := (srv m)\<lparr>ConfigUpdateChan := (ConfigUpdateChan (srv m))\<lparr>buf := xs\<rparr>\<rparr>,
             mlog := mlog m @ [LogConfigUpdate]\<rparr>)
      | [] \<Rightarrow>
          (case arrival of
             Some t \<Rightarrow>
               if 0 \<le> t \<and> t < interval
               then ((t, True), m\<lparr>mlog := mlog m @ [LogConfigUpdate]\<rparr>)
               else ((max 0 interval, False), m)
           | None \<Rightarrow> ((max 0 interval, False), m)))"

subsection \<open>The server as \<open>New\<close> builds it, and the runs of the scheduler on it\<close>

text \<open>
  \<open>New\<close> builds the server: the hub is \<open>NewHub()\<close>, the time of the last check is
  the start time, the address and its source are empty, and \<open>ConfigUpdateChan\<close> is
  \<^verbatim>\<open>make(chan struct{}, 1)\<close>.
\<close>

definition New :: "int \<Rightarrow> Server" where
  "New startTime =
     \<lparr>LastCheckTime = startTime, CurrentIP = [], CurrentSource = [],
      Hub = Some NewHub, ConfigUpdateChan = make_chan 1\<rparr>"

text \<open>
  The state in which \<open>monitorIP\<close> enters its loop: \<open>lastIP\<close> is the address of the
  most recent row of the history, when reading it gave no error and a row, and the
  restored address is logged.
\<close>

definition monitorIP_init :: "string + string list \<Rightarrow> Server \<Rightarrow> 'u \<Rightarrow> 'u Monitor" where
  "monitorIP_init recent s u =
     \<lparr>lastIP = restore_lastIP recent, srv = s, ip_history = [], error_logs = [],
      mlog = (case recent of Inr (ip # rest) \<Rightarrow> [LogRestoredIP ip] | _ \<Rightarrow> []), sync = u\<rparr>"

text \<open>
  After \<open>New\<close> two goroutines work on \<open>ConfigUpdateChan\<close>: \<open>handleUpdateConfig\<close>
  sends the notification and \<open>monitorIP\<close> receives in the wait at the end of a cycle;
  nothing closes the channel or assigns the field again. A run is a sequence of their
  steps in the order in which they take effect: a notification, one iteration of the
  loop up to its pause, or a wait. A run stops when a step would block or panics.
\<close>

datatype step =
    Notify bool
  | Cycle AppConfig int reply "string option"
  | Wait int "int option"

fun run_step ::
  "(string \<Rightarrow> int option) \<Rightarrow> (string \<Rightarrow> 'u \<Rightarrow> string option \<times> 'u) \<Rightarrow> step \<Rightarrow> 'u Monitor \<Rightarrow>
   'u Monitor attempt" where
  "run_step ParseDuration update (Notify waiting) m =
     (case notifyConfigUpdate waiting (srv m) of
        Done (s, sent) \<Rightarrow> Done (m\<lparr>srv := s\<rparr>)
      | WouldBlock \<Rightarrow> WouldBlock
      | Panics \<Rightarrow> Panics)"
| "run_step ParseDuration update (Cycle cfg now got history_err) m =
     Done (snd (monitor_cycle ParseDuration update cfg now got history_err m))"
| "run_step ParseDuration update (Wait interval arrival) m =
     Done (snd (wait_interval interval arrival m))"

fun run_steps ::
  "(string \<Rightarrow> int option) \<Rightarrow> (string \<Rightarrow> 'u \<Rightarrow> string option \<times> 'u) \<Rightarrow> step list \<Rightarrow> 'u Monitor \<Rightarrow>
   'u Monitor attempt" where
  "run_steps ParseDuration update [] m = Done m"
| "run_steps ParseDuration update (st # rest) m =
     (case run_step ParseDuration update st m of
        Done m' \<Rightarrow> run_steps ParseDuration update rest m'
      | WouldBlock \<Rightarrow> WouldBlock
      | Panics \<Rightarrow> Panics)"

text \<open>
  A channel of one slot that is open and holds at most one value.
\<close>

definition single_slot :: "'a chan \<Rightarrow> bool" where
  "single_slot ch = (cap ch = 1 \<and> \<not> closed ch \<and> length (buf ch) \<le> 1)"

section \<open>Vocabulary and examples for the scheduler and the hub\<close>

text \<open>
  \<open>parse_example\<close> stands for \<open>time.ParseDuration\<close> on the strings of the examples:
  \<open>5s\<close> and \<open>5m\<close> are durations, and \<open>1d\<close> is an error, since the library knows no
  unit \<open>d\<close>. A provider lowers the minimum interval when it is enabled and of kind
  \<open>router_ssh\<close> or \<open>interface\<close>.
\<close>

definition parse_example :: "string \<Rightarrow> int option" where
  "parse_example s =
     (if s = ''5s'' then Some (5 * Second)
      else if s = ''5m'' then Some (5 * Minute)
      else None)"

definition interval_cfg :: "string \<Rightarrow> IPProviderConfig list \<Rightarrow> AppConfig" where
  "interval_cfg ipCheck ps =
     \<lparr>IPProviders = ps, CloudflareAccounts = [],
      Intervals = \<lparr>IPCheck = ipCheck, DNSUpdate = ''1m'', HistoryRetention = ''30d''\<rparr>\<rparr>"

definition fast_kind :: "IPProviderConfig \<Rightarrow> bool" where
  "fast_kind p = (Enabled p \<and> (Type p = ''router_ssh'' \<or> Type p = ''interface''))"

text \<open>
  What the dispatch of a message does to a channel and to the hub: a full channel is
  closed and its client removed, any other channel of a visited client gets the message.
  The example hub has two subscribers, the first with a full queue.
\<close>

definition deliver :: "'a \<Rightarrow> 'a chan \<Rightarrow> 'a chan" where
  "deliver v ch = (if full ch then ch\<lparr>closed := True\<rparr> else ch\<lparr>buf := buf ch @ [v]\<rparr>)"

definition dispatched :: "WSMessage \<Rightarrow> nat list \<Rightarrow> Hub \<Rightarrow> Hub" where
  "dispatched message cs h =
     h\<lparr>sends := (\<lambda>c. if c \<in> set cs then deliver message (sends h c) else sends h c),
       clients := filter (\<lambda>c. \<not> (c \<in> set cs \<and> full (sends h c))) (clients h)\<rparr>"

definition ip_change :: WSMessage where
  "ip_change = \<lparr>msg_Type = ''ip_change'',
                 msg_Data = [(''ip'', ''203.0.113.2''), (''source'', ''STUN'')]\<rparr>"

definition example_hub :: Hub where
  "example_hub =
     \<lparr>clients = [1, 2],
      sends = (\<lambda>c. make_chan 256)
                (1 := \<lparr>buf = replicate 256 ip_change, cap = 256, closed = False\<rparr>),
      broadcast = make_chan 0\<rparr>"

text \<open>
  A server with one subscriber and a given content of \<open>ConfigUpdateChan\<close>, a scheduler
  on it, an updater that only records the addresses it is called with, the rows handed
  to \<open>AddDNSUpdate\<close> in a trace, a store that knows no zone, and the log line of the
  scheduler for a failed DNS update.
\<close>

definition example_server :: "unit list \<Rightarrow> Server" where
  "example_server pending =
     \<lparr>LastCheckTime = 0, CurrentIP = [], CurrentSource = [],
      Hub = Some (NewHub\<lparr>clients := [1]\<rparr>),
      ConfigUpdateChan = \<lparr>buf = pending, cap = 1, closed = False\<rparr>\<rparr>"

definition example_monitor :: "string \<Rightarrow> unit list \<Rightarrow> 'u \<Rightarrow> 'u Monitor" where
  "example_monitor previous pending u =
     \<lparr>lastIP = previous, srv = example_server pending, ip_history = [], error_logs = [],
      mlog = [], sync = u\<rparr>"

text \<open>
  The scheduler as it enters its loop on a server just built, with an empty history, and
  the same scheduler with one signal pending.
\<close>

definition fresh_monitor :: "string list Monitor" where
  "fresh_monitor = monitorIP_init (Inr []) (New 0) []"

definition signalled_monitor :: "string list Monitor" where
  "signalled_monitor =
     fresh_monitor\<lparr>srv := (New 0)\<lparr>ConfigUpdateChan := \<lparr>buf = [()], cap = 1, closed = False\<rparr>\<rparr>\<rparr>"

definition record_call :: "string \<Rightarrow> string list \<Rightarrow> string option \<times> string list" where
  "record_call ip calls = (None, calls @ [ip])"

definition is_audit :: "event \<Rightarrow> bool" where
  "is_audit e = (case e of AddDNSUpdate a i t d ok err \<Rightarrow> True | _ \<Rightarrow> False)"

definition audit_rows :: "event list \<Rightarrow> event list" where
  "audit_rows evs = filter is_audit evs"

definition no_zone_store :: store where
  "no_zone_store = \<lparr>zone_ids = Map.empty, dns = (\<lambda>k. []), faults = []\<rparr>"

definition zone_failure_sync :: "string option \<times> store exec" where
  "zone_failure_sync =
     UpdateIP (store_api []) (example_updater [example_account [''@'']] True) ''203.0.113.2''
       (start no_zone_store)"

definition dns_failure_logged :: "monitor_log list \<Rightarrow> bool" where
  "dns_failure_logged ls = list_ex (\<lambda>l. case l of LogDNSUpdateFailed e \<Rightarrow> True | _ \<Rightarrow> False) ls"

section \<open>Properties of the provider selector\<close>

lemma failure_labels_append: "failure_labels (xs @ ys) = failure_labels xs @ failure_labels ys"
  by (induction xs rule: failure_labels.induct) auto

lemma GetIP_loop_char:
  "GetIP_loop scan run cfgs errors tr0 w = (res, tr, w') \<Longrightarrow>
   \<exists>new. tr = tr0 @ new
     \<and> prefix (map fst new) (attempted scan cfgs)
     \<and> consult scan run (map fst new) w = (new, w')
     \<and> (\<forall>x \<in> set (butlast new). \<not> succeeded (snd x))
     \<and> (case res of
           Inr (ip, src) \<Rightarrow> new \<noteq> [] \<and> succeeded (snd (last new))
                            \<and> ip = fst (snd (last new)) \<and> src = source_label (last new)
         | Inl e \<Rightarrow> map fst new = attempted scan cfgs
                    \<and> (\<forall>x \<in> set new. \<not> succeeded (snd x))
                    \<and> e = (if errors @ failure_labels new \<noteq> []
                           then AllProvidersFailed (errors @ failure_labels new)
                           else NoEnabledProvider))"
proof (induction cfgs arbitrary: errors tr0 w)
  case Nil
  then show ?case by (auto simp: attempted_def split: if_splits)
next
  case (Cons pCfg rest)
  show ?case
  proof (cases "Enabled pCfg \<and> newProvider scan pCfg \<noteq> None")
    case False
    then have loop: "GetIP_loop scan run rest errors tr0 w = (res, tr, w')"
      using Cons.prems by (auto split: option.splits)
    have att: "attempted scan (pCfg # rest) = attempted scan rest"
      using False by (auto simp: attempted_def)
    show ?thesis unfolding att by (rule Cons.IH[OF loop])
  next
    case True
    then obtain p where p: "newProvider scan pCfg = Some p" and en: "Enabled pCfg" by auto
    obtain ip source err w1 where r: "run p w = ((ip, source, err), w1)"
      by (metis prod_cases3 surj_pair)
    have att: "attempted scan (pCfg # rest) = pCfg # attempted scan rest"
      using p en by (simp add: attempted_def)
    show ?thesis
    proof (cases "err = None \<and> ip \<noteq> []")
      case True
      then have "res = Inr (ip, if source = [] then Type pCfg else source)"
        "tr = tr0 @ [(pCfg, (ip, source, err))]" "w' = w1"
        using Cons.prems p en r by auto
      then show ?thesis using True p r att
        by (auto simp: succeeded_def source_label_def)
    next
      case False
      let ?a = "(pCfg, (ip, source, err))"
      let ?errors = "(case err of Some e \<Rightarrow> errors @ [errMsg (Type pCfg) e] | None \<Rightarrow> errors)"
      have "GetIP_loop scan run rest ?errors (tr0 @ [?a]) w1 = (res, tr, w')"
        using Cons.prems p en r False by (auto split: option.splits)
      from Cons.IH[OF this] obtain new where new:
        "tr = (tr0 @ [?a]) @ new"
        "prefix (map fst new) (attempted scan rest)"
        "consult scan run (map fst new) w1 = (new, w')"
        "\<forall>x \<in> set (butlast new). \<not> succeeded (snd x)"
        "(case res of
           Inr (ip, src) \<Rightarrow> new \<noteq> [] \<and> succeeded (snd (last new))
                            \<and> ip = fst (snd (last new)) \<and> src = source_label (last new)
         | Inl e \<Rightarrow> map fst new = attempted scan rest
                    \<and> (\<forall>x \<in> set new. \<not> succeeded (snd x))
                    \<and> e = (if ?errors @ failure_labels new \<noteq> []
                           then AllProvidersFailed (?errors @ failure_labels new)
                           else NoEnabledProvider))"
        by blast
      have fl: "?errors @ failure_labels new = errors @ failure_labels (?a # new)"
        by (cases err) auto
      have nf: "\<not> succeeded (snd ?a)" using False by (simp add: succeeded_def)
      have "tr = tr0 @ (?a # new)" using new(1) by simp
      moreover have "prefix (map fst (?a # new)) (attempted scan (pCfg # rest))"
        using new(2) att by simp
      moreover have "consult scan run (map fst (?a # new)) w = (?a # new, w')"
        using new(3) p r by simp
      moreover have "\<forall>x \<in> set (butlast (?a # new)). \<not> succeeded (snd x)"
        using new(4) nf by (cases new) auto
      moreover have "(case res of
           Inr (ip, src) \<Rightarrow> (?a # new) \<noteq> [] \<and> succeeded (snd (last (?a # new)))
                            \<and> ip = fst (snd (last (?a # new))) \<and> src = source_label (last (?a # new))
         | Inl e \<Rightarrow> map fst (?a # new) = attempted scan (pCfg # rest)
                    \<and> (\<forall>x \<in> set (?a # new). \<not> succeeded (snd x))
                    \<and> e = (if errors @ failure_labels (?a # new) \<noteq> []
                           then AllProvidersFailed (errors @ failure_labels (?a # new))
                           else NoEnabledProvider))"
        using new(5) nf att unfolding fl by (auto split: sum.splits)
      ultimately show ?thesis by blast
    qed
  qed
qed




lemma failure_labels_all_errors:
  "\<forall>x \<in> set tr. reply_error (snd x) \<noteq> None \<Longrightarrow> failure_labels tr = map failure_label tr"
  by (induction tr rule: failure_labels.induct) (auto simp: reply_error_def failure_label_def)

lemma failure_labels_Nil_iff:
  "(failure_labels tr = []) = (\<forall>x \<in> set tr. reply_error (snd x) = None)"
  by (induction tr rule: failure_labels.induct) (auto simp: reply_error_def)

lemma attempted_Nil: "\<forall>c \<in> set cfgs. \<not> Enabled c \<Longrightarrow> attempted scan cfgs = []"
  by (simp add: attempted_def)

text \<open>
  Claim C3, as amended. If at least one provider was attempted and every attempt
  returned an error, the result is the aggregate error holding one labelled failure per
  attempt, in attempt order, and every enabled provider of a recognised kind was
  attempted. The distinct "no provider enabled" error is returned exactly when
  every attempted provider returned neither an error nor an address; in particular it is
  returned whenever no provider is enabled.
\<close>

theorem GetIP_failure_report:
  "GetIP scan run cfg w = (res, tr, w') \<Longrightarrow>
     (tr \<noteq> [] \<and> (\<forall>x \<in> set tr. reply_error (snd x) \<noteq> None) \<longrightarrow>
        res = Inl (AllProvidersFailed (map failure_label tr))
        \<and> map fst tr = attempted scan (IPProviders cfg))
     \<and> ((res = Inl NoEnabledProvider) =
          (\<forall>x \<in> set tr. reply_error (snd x) = None \<and> fst (snd x) = []))
     \<and> ((\<forall>c \<in> set (IPProviders cfg). \<not> Enabled c) \<longrightarrow> res = Inl NoEnabledProvider)"
proof -
  assume run: "GetIP scan run cfg w = (res, tr, w')"
  from GetIP_loop_char [OF run [unfolded GetIP_def]]
  have pre: "prefix (map fst tr) (attempted scan (IPProviders cfg))"
    and res: "case res of
           Inr (ip, src) \<Rightarrow> tr \<noteq> [] \<and> succeeded (snd (last tr))
         | Inl e \<Rightarrow> map fst tr = attempted scan (IPProviders cfg)
                    \<and> (\<forall>x \<in> set tr. \<not> succeeded (snd x))
                    \<and> e = (if failure_labels tr \<noteq> []
                           then AllProvidersFailed (failure_labels tr)
                           else NoEnabledProvider)"
    by (auto split: sum.splits)
  have inr: "tr \<noteq> [] \<and> reply_error (snd (last tr)) = None \<and> fst (snd (last tr)) \<noteq> []"
    if "res = Inr v" for v
    using res that by (auto simp: succeeded_def reply_error_def split: prod.splits)
  have part1: "res = Inl (AllProvidersFailed (map failure_label tr))
        \<and> map fst tr = attempted scan (IPProviders cfg)"
    if ne: "tr \<noteq> []" and errs: "\<forall>x \<in> set tr. reply_error (snd x) \<noteq> None"
  proof (cases res)
    case (Inr v)
    from inr [OF Inr] errs have False using last_in_set by blast
    then show ?thesis ..
  next
    case (Inl e)
    have "failure_labels tr = map failure_label tr"
      using errs by (rule failure_labels_all_errors)
    then show ?thesis using res Inl ne by simp
  qed
  have part2: "(res = Inl NoEnabledProvider) =
          (\<forall>x \<in> set tr. reply_error (snd x) = None \<and> fst (snd x) = [])"
  proof (cases res)
    case (Inr v)
    from inr [OF Inr] have "\<exists>x \<in> set tr. fst (snd x) \<noteq> []" using last_in_set by blast
    then show ?thesis using Inr by auto
  next
    case (Inl e)
    then have ns: "\<forall>x \<in> set tr. \<not> succeeded (snd x)"
      and e: "e = (if failure_labels tr \<noteq> [] then AllProvidersFailed (failure_labels tr)
                   else NoEnabledProvider)"
      using res by auto
    have "(e = NoEnabledProvider) = (failure_labels tr = [])" using e by auto
    also have "\<dots> = (\<forall>x \<in> set tr. reply_error (snd x) = None)"
      by (rule failure_labels_Nil_iff)
    also have "\<dots> = (\<forall>x \<in> set tr. reply_error (snd x) = None \<and> fst (snd x) = [])"
      using ns by (auto simp: succeeded_def reply_error_def split: prod.splits)
    finally show ?thesis using Inl by simp
  qed
  have part3: "res = Inl NoEnabledProvider" if "\<forall>c \<in> set (IPProviders cfg). \<not> Enabled c"
  proof -
    have "attempted scan (IPProviders cfg) = []" using that by (rule attempted_Nil)
    then have "tr = []" using pre by simp
    then show ?thesis using part2 by simp
  qed
  show ?thesis using part1 part2 part3 by blast
qed

lemma all_fail_run:
  "GetIP scan_none run_example (with_providers [stun_cfg True, stun_cfg False, stun_cfg True]) 0
   = (Inl (AllProvidersFailed [errMsg ''stun'' ''timeout'', errMsg ''stun'' ''timeout'']),
      [(stun_cfg True, [], [], Some ''timeout''), (stun_cfg True, [], [], Some ''timeout'')], 2)"
  by (simp add: GetIP_def with_providers_def stun_cfg_def
      newProvider_def property_def run_example_def scan_none_def)

theorem GetIP_failure_report_witness:
  "GetIP scan_none run_example (with_providers [stun_cfg True, stun_cfg False, stun_cfg True]) 0
   = (Inl (AllProvidersFailed (map failure_label
        [(stun_cfg True, [], [], Some ''timeout''), (stun_cfg True, [], [], Some ''timeout'')])),
      [(stun_cfg True, [], [], Some ''timeout''), (stun_cfg True, [], [], Some ''timeout'')], 2)
   \<and> [stun_cfg True, stun_cfg True]
       = attempted scan_none [stun_cfg True, stun_cfg False, stun_cfg True]
   \<and> reply_error ([], [], Some ''timeout'') \<noteq> None"
  using GetIP_failure_report [OF all_fail_run] all_fail_run
  by (simp add: with_providers_def reply_error_def)

text \<open>
  The claim C3 as stated fails: with one enabled provider of the unrecognised kind
  \<open>http\<close> the selector returns the "no provider enabled" error although a provider
  is enabled.
\<close>

theorem GetIP_no_provider_counterexample:
  "\<not> ((fst (GetIP scan_none run_example (with_providers [http_cfg]) 0) = Inl NoEnabledProvider)
       = (\<not> (\<exists>c \<in> set (IPProviders (with_providers [http_cfg])). Enabled c)))"
  by (simp add: GetIP_def with_providers_def http_cfg_def newProvider_def)

section \<open>Properties of the retry loops\<close>

declare updateRecordWithRetry_loop.simps [simp del] getZoneIDWithRetry_loop.simps [simp del]

lemma backoffs_append: "backoffs (xs @ ys) = backoffs xs @ backoffs ys"
  by (induction xs) (auto split: event.splits)

lemma attempts_made_append: "attempts_made (xs @ ys) = attempts_made xs + attempts_made ys"
  by (simp add: attempts_made_def)

lemma retry_pause_trace:
  "retry_pause line dl a b s = (r, s1) \<Longrightarrow>
     (a = 0 \<and> s1 = s \<and> r = Some b)
     \<or> (a > 0 \<and> r = Some (min (b * 2) maxBackoff) \<and> trace s1 = trace s @ [Log line, TimerFired b])
     \<or> (a > 0 \<and> r = None \<and> trace s1 = trace s @ [Log line, CtxDone b])"
  by (auto simp: retry_pause_def backoff_wait_def emit_def split: if_splits)

lemma updateRecord_trace:
  "updateRecord cf api z d ip s = (r, s') \<Longrightarrow>
     \<exists>evs. trace s' = trace s @ evs \<and> attempts_made evs = 1 \<and> quiet evs"
  unfolding updateRecord_def api_call_def emit_def
  by (auto simp: attempts_made_def is_attempt_def quiet_def is_CtxDone_def
      split: prod.splits sum.splits list.splits option.splits if_splits)

lemma ctx_ends_append:
  "\<not> list_ex is_CtxDone xs \<Longrightarrow> ctx_ends c ys \<Longrightarrow> ctx_ends c (xs @ ys)"
  by (auto simp: ctx_ends_def butlast_append list_ex_iff split: if_splits)

lemma ctx_ends_quiet: "\<not> list_ex is_CtxDone xs \<Longrightarrow> ctx_ends c xs"
  by (simp add: ctx_ends_def)

lemma schedule_unfold:
  "0 < a \<Longrightarrow> a \<le> maxRetries \<Longrightarrow>
   schedule (Suc maxRetries - max a 1) b = b # schedule (Suc maxRetries - max (Suc a) 1) (min (b * 2) maxBackoff)"
  by (cases "Suc maxRetries - a") (auto simp: Suc_diff_le)

lemma retry_step:
  assumes le: "a \<le> maxRetries"
    and pause: "retry_pause line dl a b s = (Some b', s1)"
    and body: "trace s2 = trace s1 @ evs1" "attempts_made evs1 = 1" "quiet evs1"
    and rest: "trace s' = trace s2 @ evs2" "attempts_made evs2 \<le> Suc maxRetries - Suc a"
      "prefix (backoffs evs2) (schedule (Suc maxRetries - max (Suc a) 1) b')"
      "ctx_ends c evs2"
  shows "\<exists>evs. trace s' = trace s @ evs
       \<and> attempts_made evs \<le> Suc maxRetries - a
       \<and> prefix (backoffs evs) (schedule (Suc maxRetries - max a 1) b)
       \<and> ctx_ends c evs"
proof -
  from retry_pause_trace [OF pause]
  consider (first) "a = 0" "s1 = s" "b' = b"
    | (retry) "a > 0" "b' = min (b * 2) maxBackoff" "trace s1 = trace s @ [Log line, TimerFired b]"
    by auto
  then show ?thesis
  proof cases
    case first
    let ?evs = "evs1 @ evs2"
    have "trace s' = trace s @ ?evs" using first body rest by simp
    moreover have "attempts_made ?evs \<le> Suc maxRetries - a"
      using body rest le first by (simp add: attempts_made_append)
    moreover have "prefix (backoffs ?evs) (schedule (Suc maxRetries - max a 1) b)"
      using body rest first by (simp add: backoffs_append quiet_def)
    moreover have "ctx_ends c ?evs"
      using body rest by (intro ctx_ends_append) (simp_all add: quiet_def)
    ultimately show ?thesis by blast
  next
    case retry
    let ?evs = "[Log line, TimerFired b] @ evs1 @ evs2"
    have "trace s' = trace s @ ?evs" using retry body rest by simp
    moreover have "attempts_made ?evs \<le> Suc maxRetries - a"
      using body rest le by (simp add: attempts_made_append) (simp add: attempts_made_def is_attempt_def)
    moreover have "prefix (backoffs ?evs) (schedule (Suc maxRetries - max a 1) b)"
      using body rest retry schedule_unfold [OF retry(1) le, of b]
      by (simp add: backoffs_append quiet_def)
    moreover have "ctx_ends c ?evs"
      using body rest by (intro ctx_ends_append) (simp_all add: quiet_def is_CtxDone_def)
    ultimately show ?thesis by blast
  qed
qed

lemma retry_done:
  assumes le: "a \<le> maxRetries"
    and pause: "retry_pause line dl a b s = (Some b', s1)"
    and body: "trace s' = trace s1 @ evs1" "attempts_made evs1 = 1" "quiet evs1"
  shows "\<exists>evs. trace s' = trace s @ evs
       \<and> attempts_made evs \<le> Suc maxRetries - a
       \<and> prefix (backoffs evs) (schedule (Suc maxRetries - max a 1) b)
       \<and> ctx_ends c evs"
  using retry_step [OF le pause body, of s' "[]" c]
  by (simp add: attempts_made_def ctx_ends_def)

lemma retry_ctx:
  assumes le: "a \<le> maxRetries"
    and pause: "retry_pause line dl a b s = (None, s')"
  shows "\<exists>evs. trace s' = trace s @ evs
       \<and> attempts_made evs \<le> Suc maxRetries - a
       \<and> prefix (backoffs evs) (schedule (Suc maxRetries - max a 1) b)
       \<and> ctx_ends True evs"
proof -
  from retry_pause_trace [OF pause]
  have a: "a > 0" and tr: "trace s' = trace s @ [Log line, CtxDone b]" by auto
  let ?evs = "[Log line, CtxDone b]"
  have "attempts_made ?evs \<le> Suc maxRetries - a" by (simp add: attempts_made_def is_attempt_def)
  moreover have "prefix (backoffs ?evs) (schedule (Suc maxRetries - max a 1) b)"
    using schedule_unfold [OF a le, of b] by simp
  moreover have "ctx_ends True ?evs" by (simp add: ctx_ends_def is_CtxDone_def)
  ultimately show ?thesis using tr by blast
qed

lemma updateRecordWithRetry_loop_trace:
  "updateRecordWithRetry_loop cf api dl z d ip acc a b le s = (r, s') \<Longrightarrow>
     \<exists>evs. trace s' = trace s @ evs
       \<and> attempts_made evs \<le> Suc maxRetries - a
       \<and> prefix (backoffs evs) (schedule (Suc maxRetries - max a 1) b)
       \<and> ctx_ends (r = Some ctx_err) evs"
proof (induction cf api dl z d ip acc a b le s arbitrary: r s' rule: updateRecordWithRetry_loop.induct)
  case (1 cf api dl z d ip acc a b le s)
  show ?case
  proof (cases "a \<le> maxRetries")
    case False
    then have "s' = s" using "1.prems" by (simp add: updateRecordWithRetry_loop.simps)
    then show ?thesis by (simp add: attempts_made_def ctx_ends_def)
  next
    case le: True
    obtain p s1 where p: "retry_pause (LogRetryRecord d a maxRetries) dl a b s = (p, s1)"
      by (cases "retry_pause (LogRetryRecord d a maxRetries) dl a b s")
    show ?thesis
    proof (cases p)
      case None
      then have "r = Some ctx_err" "s' = s1"
        using "1.prems" le p by (simp_all add: updateRecordWithRetry_loop.simps)
      then show ?thesis using retry_ctx [OF le p [unfolded None]] by simp
    next
      case (Some b')
      obtain r1 s2 where u: "updateRecord cf api z d ip s1 = (r1, s2)"
        by (cases "updateRecord cf api z d ip s1")
      from updateRecord_trace [OF u] obtain evs1 where
        evs1: "trace s2 = trace s1 @ evs1" "attempts_made evs1 = 1" "quiet evs1" by blast
      show ?thesis
      proof (cases r1)
        case None
        then have "r = None" "s' = s2"
          using "1.prems" le p Some u by (simp_all add: updateRecordWithRetry_loop.simps)
        then show ?thesis using retry_done [OF le p [unfolded Some]] evs1 by blast
      next
        case (Some err)
        then have "updateRecordWithRetry_loop cf api dl z d ip acc (Suc a) b' (Some err) s2 = (r, s')"
          using "1.prems" le p \<open>p = Some b'\<close> u by (simp add: updateRecordWithRetry_loop.simps)
        from "1.IH" [OF le p [symmetric] \<open>p = Some b'\<close> u [symmetric] Some this]
        obtain evs2 where "trace s' = trace s2 @ evs2"
          "attempts_made evs2 \<le> Suc maxRetries - Suc a"
          "prefix (backoffs evs2) (schedule (Suc maxRetries - max (Suc a) 1) b')"
          "ctx_ends (r = Some ctx_err) evs2" by blast
        from retry_step [OF le p [unfolded \<open>p = Some b'\<close>] evs1 this] show ?thesis .
      qed
    qed
  qed
qed

lemma getZoneIDWithRetry_loop_trace:
  "getZoneIDWithRetry_loop cf api dl zn acc a b le s = (r, s') \<Longrightarrow>
     \<exists>evs. trace s' = trace s @ evs
       \<and> attempts_made evs \<le> Suc maxRetries - a
       \<and> prefix (backoffs evs) (schedule (Suc maxRetries - max a 1) b)
       \<and> ctx_ends (r = Inl ctx_err) evs"
proof (induction cf api dl zn acc a b le s arbitrary: r s' rule: getZoneIDWithRetry_loop.induct)
  case (1 cf api dl zn acc a b le s)
  show ?case
  proof (cases "a \<le> maxRetries")
    case False
    then have "s' = s" using "1.prems" by (simp add: getZoneIDWithRetry_loop.simps)
    then show ?thesis by (simp add: attempts_made_def ctx_ends_def)
  next
    case le: True
    obtain p s1 where p: "retry_pause (LogRetryZoneID acc zn a maxRetries) dl a b s = (p, s1)"
      by (cases "retry_pause (LogRetryZoneID acc zn a maxRetries) dl a b s")
    show ?thesis
    proof (cases p)
      case None
      then have "r = Inl ctx_err" "s' = s1"
        using "1.prems" le p by (simp_all add: getZoneIDWithRetry_loop.simps)
      then show ?thesis using retry_ctx [OF le p [unfolded None]] by simp
    next
      case (Some b')
      obtain r1 s2 where u:
        "api_call (ZoneIDByName_call api zn) (ZoneIDByName cf api zn) s1 = (r1, s2)"
        by (cases "api_call (ZoneIDByName_call api zn) (ZoneIDByName cf api zn) s1")
      have evs1: "trace s2 = trace s1 @ [ZoneIDByName_call api zn]"
        "attempts_made [ZoneIDByName_call api zn] = 1" "quiet [ZoneIDByName_call api zn]"
        using u by (auto simp: api_call_def attempts_made_def is_attempt_def quiet_def
            is_CtxDone_def split: prod.splits)
      show ?thesis
      proof (cases r1)
        case (Inr zoneID)
        then have "r = Inr zoneID" "s' = s2"
          using "1.prems" le p Some u by (simp_all add: getZoneIDWithRetry_loop.simps)
        then show ?thesis using retry_done [OF le p [unfolded Some]] evs1 by blast
      next
        case (Inl err)
        then have "getZoneIDWithRetry_loop cf api dl zn acc (Suc a) b' (Some err) s2 = (r, s')"
          using "1.prems" le p Some u by (simp add: getZoneIDWithRetry_loop.simps)
        from "1.IH" [OF le p [symmetric] Some u [symmetric] Inl this]
        obtain evs2 where "trace s' = trace s2 @ evs2"
          "attempts_made evs2 \<le> Suc maxRetries - Suc a"
          "prefix (backoffs evs2) (schedule (Suc maxRetries - max (Suc a) 1) b')"
          "ctx_ends (r = Inl ctx_err) evs2" by blast
        from retry_step [OF le p [unfolded Some] evs1 this] show ?thesis .
      qed
    qed
  qed
qed

lemma next_backoff_bounds:
  "0 < b \<Longrightarrow> b \<le> maxBackoff \<Longrightarrow>
   0 < min (b * 2) maxBackoff \<and> min (b * 2) maxBackoff \<le> maxBackoff \<and> b \<le> min (b * 2) maxBackoff"
  by auto

lemma schedule_nth:
  "0 < b \<Longrightarrow> b \<le> maxBackoff \<Longrightarrow> k < n \<Longrightarrow> schedule n b ! k = min (2 ^ k * b) maxBackoff"
proof (induction n arbitrary: b k)
  case 0
  then show ?case by simp
next
  case (Suc n)
  show ?case
  proof (cases k)
    case 0
    then show ?thesis using Suc.prems by simp
  next
    case (Suc j)
    let ?b = "min (b * 2) maxBackoff"
    have "schedule n ?b ! j = min (2 ^ j * ?b) maxBackoff"
      using Suc.prems Suc by (intro Suc.IH) auto
    also have "\<dots> = min (2 ^ Suc j * b) maxBackoff"
    proof (cases "b * 2 \<le> maxBackoff")
      case True
      then show ?thesis by (simp add: min_def mult.assoc mult.commute)
    next
      case False
      have one: "(1::int) \<le> 2 ^ j" by simp
      have m: "maxBackoff \<le> 2 ^ j * maxBackoff"
        using mult_right_mono [OF one, of maxBackoff] Suc.prems by simp
      have "2 ^ j * maxBackoff \<le> 2 ^ j * (b * 2)"
        using False by (intro mult_left_mono) auto
      also have "2 ^ j * (b * 2) = 2 ^ Suc j * b" by simp
      finally have r: "maxBackoff \<le> 2 ^ Suc j * b" using m by linarith
      have b: "min (b * 2) maxBackoff = maxBackoff" using False by simp
      have "min (2 ^ j * maxBackoff) maxBackoff = maxBackoff" using m by (rule min_absorb2)
      moreover have "min (2 ^ Suc j * b) maxBackoff = maxBackoff" using r by (rule min_absorb2)
      ultimately show ?thesis unfolding b by simp
    qed
    finally show ?thesis using Suc by simp
  qed
qed

lemma schedule_actual: "schedule maxRetries initialBackoff = [1 * Second, 2 * Second, 4 * Second]"
  by (simp add: maxRetries_def initialBackoff_def maxBackoff_def Second_def numeral_3_eq_3)

lemma update_loop_refines:
  "a + n = maxRetries \<Longrightarrow>
   (case updateRecord cf api z d ip s of
      (None, s2) \<Rightarrow> (None, s2)
    | (Some err, s2) \<Rightarrow> updateRecordWithRetry_loop cf api dl z d ip acc (Suc a) b (Some err) s2)
   = as_error (spec_retry (\<lambda>k. LogRetryRecord d k 3) dl (try_update cf api z d ip) n a b s)"
proof (induction n arbitrary: a b s)
  case 0
  then have "\<not> Suc a \<le> maxRetries" by simp
  then show ?case
    by (auto simp: updateRecordWithRetry_loop.simps try_update_def as_error_def
        split: prod.splits option.splits)
next
  case (Suc n)
  then have le: "Suc a \<le> maxRetries" and n: "Suc a + n = maxRetries" by simp_all
  note IH = Suc.IH [OF n]
  obtain r s1 where u: "updateRecord cf api z d ip s = (r, s1)"
    by (cases "updateRecord cf api z d ip s")
  show ?case
  proof (cases r)
    case None
    then have "try_update cf api z d ip s = (Inr (), s1)" using u by (simp add: try_update_def)
    then show ?thesis using u None by (simp add: as_error_def)
  next
    case (Some err)
    then have t: "try_update cf api z d ip s = (Inl err, s1)" using u by (simp add: try_update_def)
    let ?s2 = "emit (Log (LogRetryRecord d (Suc a) 3)) s1"
    let ?s3 = "?s2\<lparr>clock := clock ?s2 + b, trace := trace ?s2 @ [TimerFired b]\<rparr>"
    show ?thesis
    proof (cases "dl < clock ?s2 + b")
      case True
      have "updateRecordWithRetry_loop cf api dl z d ip acc (Suc a) b (Some err) s1
          = (Some ctx_err, ?s2\<lparr>clock := max (clock ?s2) dl, trace := trace ?s2 @ [CtxDone b]\<rparr>)"
        using True le
        by (simp add: updateRecordWithRetry_loop.simps [of _ _ _ _ _ _ _ "Suc a"]
            retry_pause_def backoff_wait_def maxRetries_def)
      then show ?thesis using u Some t True by (simp add: as_error_def Let_def)
    next
      case False
      have "updateRecordWithRetry_loop cf api dl z d ip acc (Suc a) b (Some err) s1
          = (case updateRecord cf api z d ip ?s3 of
               (None, s2) \<Rightarrow> (None, s2)
             | (Some err, s2) \<Rightarrow>
                 updateRecordWithRetry_loop cf api dl z d ip acc (Suc (Suc a))
                   (min (b * 2) (10 * Second)) (Some err) s2)"
        using False le
        by (simp add: updateRecordWithRetry_loop.simps [of _ _ _ _ _ _ _ "Suc a"]
            retry_pause_def backoff_wait_def maxRetries_def maxBackoff_def)
      also have "\<dots> = as_error (spec_retry (\<lambda>k. LogRetryRecord d k 3) dl
          (try_update cf api z d ip) n (Suc a) (min (b * 2) (10 * Second)) ?s3)"
        by (rule IH)
      finally show ?thesis using u Some t False by (simp add: Let_def)
    qed
  qed
qed

lemma updateRecordWithRetry_refines:
  "updateRecordWithRetry cf api dl z d ip acc s
   = as_error (spec_retry (\<lambda>k. LogRetryRecord d k 3) dl (try_update cf api z d ip) 3 0
       (1 * Second) s)"
proof -
  have "updateRecordWithRetry cf api dl z d ip acc s
      = (case updateRecord cf api z d ip s of
           (None, s2) \<Rightarrow> (None, s2)
         | (Some err, s2) \<Rightarrow>
             updateRecordWithRetry_loop cf api dl z d ip acc (Suc 0) initialBackoff (Some err) s2)"
    by (simp add: updateRecordWithRetry_def updateRecordWithRetry_loop.simps [of _ _ _ _ _ _ _ 0]
        retry_pause_def)
  also have "\<dots> = as_error (spec_retry (\<lambda>k. LogRetryRecord d k 3) dl
      (try_update cf api z d ip) 3 0 initialBackoff s)"
    by (rule update_loop_refines) (simp add: maxRetries_def)
  finally show ?thesis by (simp add: initialBackoff_def)
qed

lemma zone_loop_refines:
  "a + n = maxRetries \<Longrightarrow>
   (case api_call (ZoneIDByName_call api zn) (ZoneIDByName cf api zn) s of
      (Inr zoneID, s2) \<Rightarrow> (Inr zoneID, s2)
    | (Inl err, s2) \<Rightarrow> getZoneIDWithRetry_loop cf api dl zn acc (Suc a) b (Some err) s2)
   = spec_retry (\<lambda>k. LogRetryZoneID acc zn k 3) dl (try_zone cf api zn) n a b s"
proof (induction n arbitrary: a b s)
  case 0
  then have "\<not> Suc a \<le> maxRetries" by simp
  then show ?case
    by (auto simp: getZoneIDWithRetry_loop.simps try_zone_def split: prod.splits sum.splits)
next
  case (Suc n)
  then have le: "Suc a \<le> maxRetries" and n: "Suc a + n = maxRetries" by simp_all
  note IH = Suc.IH [OF n]
  obtain r s1 where u: "api_call (ZoneIDByName_call api zn) (ZoneIDByName cf api zn) s = (r, s1)"
    by (cases "api_call (ZoneIDByName_call api zn) (ZoneIDByName cf api zn) s")
  then have t: "try_zone cf api zn s = (r, s1)" by (simp add: try_zone_def)
  show ?case
  proof (cases r)
    case (Inr zoneID)
    then show ?thesis using u t by simp
  next
    case (Inl err)
    let ?s2 = "emit (Log (LogRetryZoneID acc zn (Suc a) 3)) s1"
    let ?s3 = "?s2\<lparr>clock := clock ?s2 + b, trace := trace ?s2 @ [TimerFired b]\<rparr>"
    show ?thesis
    proof (cases "dl < clock ?s2 + b")
      case True
      have "getZoneIDWithRetry_loop cf api dl zn acc (Suc a) b (Some err) s1
          = (Inl ctx_err, ?s2\<lparr>clock := max (clock ?s2) dl, trace := trace ?s2 @ [CtxDone b]\<rparr>)"
        using True le
        by (simp add: getZoneIDWithRetry_loop.simps [of _ _ _ _ _ "Suc a"]
            retry_pause_def backoff_wait_def maxRetries_def)
      then show ?thesis using u Inl t True by (simp add: Let_def)
    next
      case False
      have "getZoneIDWithRetry_loop cf api dl zn acc (Suc a) b (Some err) s1
          = (case api_call (ZoneIDByName_call api zn) (ZoneIDByName cf api zn) ?s3 of
               (Inr zoneID, s2) \<Rightarrow> (Inr zoneID, s2)
             | (Inl err, s2) \<Rightarrow>
                 getZoneIDWithRetry_loop cf api dl zn acc (Suc (Suc a))
                   (min (b * 2) (10 * Second)) (Some err) s2)"
        using False le
        by (simp add: getZoneIDWithRetry_loop.simps [of _ _ _ _ _ "Suc a"]
            retry_pause_def backoff_wait_def maxRetries_def maxBackoff_def)
      also have "\<dots> = spec_retry (\<lambda>k. LogRetryZoneID acc zn k 3) dl
          (try_zone cf api zn) n (Suc a) (min (b * 2) (10 * Second)) ?s3"
        by (rule IH)
      finally show ?thesis using u Inl t False by (simp add: Let_def)
    qed
  qed
qed

lemma getZoneIDWithRetry_refines:
  "getZoneIDWithRetry cf api dl zn acc s
   = spec_retry (\<lambda>k. LogRetryZoneID acc zn k 3) dl (try_zone cf api zn) 3 0 (1 * Second) s"
proof -
  have "getZoneIDWithRetry cf api dl zn acc s
      = (case api_call (ZoneIDByName_call api zn) (ZoneIDByName cf api zn) s of
           (Inr zoneID, s2) \<Rightarrow> (Inr zoneID, s2)
         | (Inl err, s2) \<Rightarrow>
             getZoneIDWithRetry_loop cf api dl zn acc (Suc 0) initialBackoff (Some err) s2)"
    by (simp add: getZoneIDWithRetry_def getZoneIDWithRetry_loop.simps [of _ _ _ _ _ 0]
        retry_pause_def)
  also have "\<dots> = spec_retry (\<lambda>k. LogRetryZoneID acc zn k 3) dl
      (try_zone cf api zn) 3 0 initialBackoff s"
    by (rule zone_loop_refines) (simp add: maxRetries_def)
  finally show ?thesis by (simp add: initialBackoff_def)
qed

lemma marks_append: "marks (xs @ ys) = marks xs @ marks ys"
  by (simp add: marks_def)

lemma marks_quiet:
  "backoffs evs = [] \<Longrightarrow> marks evs = filter is_attempt evs"
proof (induction evs)
  case Nil
  then show ?case by (simp add: marks_def)
next
  case (Cons e evs)
  then have "backoffs evs = []" "\<not> is_wait e"
    by (cases e; simp add: is_wait_def)+
  then show ?case using Cons.IH by (simp add: marks_def)
qed

lemma marks_single:
  assumes "attempts_made evs = 1" "quiet evs"
  shows "\<exists>e. marks evs = [e] \<and> is_attempt e"
proof -
  have m: "marks evs = filter is_attempt evs" using assms(2) by (simp add: quiet_def marks_quiet)
  have "length (filter is_attempt evs) = 1" using assms(1) by (simp add: attempts_made_def)
  then obtain e where e: "filter is_attempt evs = [e]"
    by (cases "filter is_attempt evs") auto
  then have "e \<in> set (filter is_attempt evs)" by simp
  then have "is_attempt e" by simp
  then show ?thesis using m e by simp
qed

lemma spec_retry_alternates:
  assumes body: "\<And>s r s1. try s = (r, s1) \<Longrightarrow>
      \<exists>evs. trace s1 = trace s @ evs \<and> (\<exists>e. marks evs = [e] \<and> is_attempt e)"
    and run: "spec_retry line dl try n k b s = (r, s')"
  shows "\<exists>evs. trace s' = trace s @ evs \<and> alternates (marks evs)"
  using run
proof (induction n arbitrary: k b s)
  case 0
  obtain r1 s1 where t: "try s = (r1, s1)" by (cases "try s")
  from body [OF t] obtain evs e where
    evs: "trace s1 = trace s @ evs" "marks evs = [e]" "is_attempt e" by blast
  have "s' = s1" using "0.prems" t by (cases r1) auto
  then show ?case using evs by auto
next
  case (Suc n)
  obtain r1 s1 where t: "try s = (r1, s1)" by (cases "try s")
  from body [OF t] obtain evs e where
    evs: "trace s1 = trace s @ evs" "marks evs = [e]" "is_attempt e" by blast
  show ?case
  proof (cases r1)
    case (Inr v)
    then have "s' = s1" using Suc.prems t by simp
    then show ?thesis using evs by auto
  next
    case (Inl err)
    let ?s2 = "emit (Log (line (Suc k))) s1"
    show ?thesis
    proof (cases "dl < clock ?s2 + b")
      case True
      then have "s' = ?s2\<lparr>clock := max (clock ?s2) dl, trace := trace ?s2 @ [CtxDone b]\<rparr>"
        using Suc.prems t Inl by (simp add: Let_def)
      then have "trace s' = trace s @ (evs @ [Log (line (Suc k)), CtxDone b])"
        using evs by (simp add: emit_def)
      moreover have "alternates (marks (evs @ [Log (line (Suc k)), CtxDone b]))"
        using evs by (simp add: marks_append) (simp add: marks_def is_attempt_def is_wait_def)
      ultimately show ?thesis by blast
    next
      case False
      let ?s3 = "?s2\<lparr>clock := clock ?s2 + b, trace := trace ?s2 @ [TimerFired b]\<rparr>"
      have "spec_retry line dl try n (Suc k) (min (b * 2) (10 * Second)) ?s3 = (r, s')"
        using Suc.prems t Inl False by (simp add: Let_def)
      from Suc.IH [OF this] obtain evs2 where
        evs2: "trace s' = trace ?s3 @ evs2" "alternates (marks evs2)" by blast
      have "trace s' = trace s @ (evs @ [Log (line (Suc k)), TimerFired b] @ evs2)"
        using evs evs2 by (simp add: emit_def)
      moreover have "alternates (marks (evs @ [Log (line (Suc k)), TimerFired b] @ evs2))"
        using evs evs2
        by (simp add: marks_append) (simp add: marks_def is_attempt_def is_wait_def)
      ultimately show ?thesis by blast
    qed
  qed
qed

lemma try_update_marks:
  "try_update cf api z d ip s = (r, s1) \<Longrightarrow>
   \<exists>evs. trace s1 = trace s @ evs \<and> (\<exists>e. marks evs = [e] \<and> is_attempt e)"
proof -
  assume t: "try_update cf api z d ip s = (r, s1)"
  obtain r0 where "updateRecord cf api z d ip s = (r0, s1)"
    using t by (auto simp: try_update_def split: prod.splits option.splits)
  from updateRecord_trace [OF this] obtain evs where
    "trace s1 = trace s @ evs" "attempts_made evs = 1" "quiet evs" by blast
  then show ?thesis using marks_single by blast
qed

lemma try_zone_marks:
  "try_zone cf api zn s = (r, s1) \<Longrightarrow>
   \<exists>evs. trace s1 = trace s @ evs \<and> (\<exists>e. marks evs = [e] \<and> is_attempt e)"
  by (auto simp: try_zone_def api_call_def marks_def is_attempt_def split: prod.splits)

lemma updateRecordWithRetry_alternates:
  assumes "updateRecordWithRetry cf api dl z d ip acc s = (r, s')"
  shows "\<exists>evs. trace s' = trace s @ evs \<and> alternates (marks evs)"
proof -
  obtain r0 where "spec_retry (\<lambda>k. LogRetryRecord d k 3) dl (try_update cf api z d ip) 3 0
      (1 * Second) s = (r0, s')"
    using assms unfolding updateRecordWithRetry_refines
    by (auto simp: as_error_def split: prod.splits sum.splits)
  then show ?thesis by (rule spec_retry_alternates [rotated]) (rule try_update_marks)
qed

lemma getZoneIDWithRetry_alternates:
  assumes "getZoneIDWithRetry cf api dl zn acc s = (r, s')"
  shows "\<exists>evs. trace s' = trace s @ evs \<and> alternates (marks evs)"
  using assms unfolding getZoneIDWithRetry_refines
  by (rule spec_retry_alternates [rotated]) (rule try_zone_marks)

text \<open>
  Claim C6. Each of the two retried remote calls (the record update and the zone
  lookup) makes at most 3 attempts beyond the first; the backoffs of its waits are an
  initial part of 1, 2 and 4 seconds: they start at one second and double each time.
  The backoff after \<open>k\<close> doublings is \<open>min (2 ^ k) 10\<close> seconds, so it
  increases up to the cap of ten seconds and never exceeds it. A wait during which the
  deadline of the context comes before the timer ends at the deadline, before the
  backoff has elapsed; it is then the last event of the retried call, which returns the
  context's error without a further attempt. Attempts and waits alternate: every
  attempt after the first comes after a wait whose timer fired, and no wait is skipped.
  Both loops of the source are equal to the policy \<open>spec_retry\<close> with 3 retries and a
  first backoff of one second, in which every retry is preceded by its wait and every
  wait ends early at the deadline.
\<close>

theorem retry_policy:
  "(updateRecordWithRetry cf api deadline zoneID domain ip accountName s = (r, s') \<longrightarrow>
      (\<exists>evs. trace s' = trace s @ evs
         \<and> attempts_made evs \<le> 1 + 3
         \<and> prefix (backoffs evs) [1 * Second, 2 * Second, 4 * Second]
         \<and> ctx_ends (r = Some ctx_err) evs
         \<and> alternates (marks evs)))
   \<and> (getZoneIDWithRetry cf api deadline zoneName accountName s = (z, s'') \<longrightarrow>
      (\<exists>evs. trace s'' = trace s @ evs
         \<and> attempts_made evs \<le> 1 + 3
         \<and> prefix (backoffs evs) [1 * Second, 2 * Second, 4 * Second]
         \<and> ctx_ends (z = Inl ctx_err) evs
         \<and> alternates (marks evs)))
   \<and> (\<forall>k < n. schedule n initialBackoff ! k = min (2 ^ k * Second) (10 * Second))
   \<and> (deadline < clock s + backoff \<longrightarrow>
        fst (backoff_wait deadline backoff s) = False
        \<and> clock (snd (backoff_wait deadline backoff s)) = max (clock s) deadline
        \<and> trace (snd (backoff_wait deadline backoff s)) = trace s @ [CtxDone backoff])
   \<and> updateRecordWithRetry cf api deadline zoneID domain ip accountName s
       = as_error (spec_retry (\<lambda>k. LogRetryRecord domain k 3) deadline
           (try_update cf api zoneID domain ip) 3 0 (1 * Second) s)
   \<and> getZoneIDWithRetry cf api deadline zoneName accountName s
       = spec_retry (\<lambda>k. LogRetryZoneID accountName zoneName k 3) deadline
           (try_zone cf api zoneName) 3 0 (1 * Second) s"
proof -
  have sch: "schedule (Suc maxRetries - max 0 1) initialBackoff = [1 * Second, 2 * Second, 4 * Second]"
    using schedule_actual by simp
  have mr: "Suc maxRetries - 0 = 1 + 3" by (simp add: maxRetries_def)
  have a: "\<exists>evs. trace s' = trace s @ evs
         \<and> attempts_made evs \<le> 1 + 3
         \<and> prefix (backoffs evs) [1 * Second, 2 * Second, 4 * Second]
         \<and> ctx_ends (r = Some ctx_err) evs
         \<and> alternates (marks evs)"
    if run: "updateRecordWithRetry cf api deadline zoneID domain ip accountName s = (r, s')"
  proof -
    from updateRecordWithRetry_loop_trace [OF run [unfolded updateRecordWithRetry_def]]
    obtain evs where evs: "trace s' = trace s @ evs" "attempts_made evs \<le> 1 + 3"
      "prefix (backoffs evs) [1 * Second, 2 * Second, 4 * Second]"
      "ctx_ends (r = Some ctx_err) evs"
      unfolding sch mr by blast
    from updateRecordWithRetry_alternates [OF run] evs(1)
    have "alternates (marks evs)" by auto
    then show ?thesis using evs by blast
  qed
  have b: "\<exists>evs. trace s'' = trace s @ evs
         \<and> attempts_made evs \<le> 1 + 3
         \<and> prefix (backoffs evs) [1 * Second, 2 * Second, 4 * Second]
         \<and> ctx_ends (z = Inl ctx_err) evs
         \<and> alternates (marks evs)"
    if run: "getZoneIDWithRetry cf api deadline zoneName accountName s = (z, s'')"
  proof -
    from getZoneIDWithRetry_loop_trace [OF run [unfolded getZoneIDWithRetry_def]]
    obtain evs where evs: "trace s'' = trace s @ evs" "attempts_made evs \<le> 1 + 3"
      "prefix (backoffs evs) [1 * Second, 2 * Second, 4 * Second]"
      "ctx_ends (z = Inl ctx_err) evs"
      unfolding sch mr by blast
    from getZoneIDWithRetry_alternates [OF run] evs(1)
    have "alternates (marks evs)" by auto
    then show ?thesis using evs by blast
  qed
  have c: "\<forall>k < n. schedule n initialBackoff ! k = min (2 ^ k * Second) (10 * Second)"
    using schedule_nth [of initialBackoff _ n]
    by (simp add: initialBackoff_def maxBackoff_def Second_def)
  have d: "fst (backoff_wait deadline backoff s) = False
        \<and> clock (snd (backoff_wait deadline backoff s)) = max (clock s) deadline
        \<and> trace (snd (backoff_wait deadline backoff s)) = trace s @ [CtxDone backoff]"
    if "deadline < clock s + backoff"
    using that by (simp add: backoff_wait_def)
  note e = updateRecordWithRetry_refines [of cf api deadline zoneID domain ip accountName s]
  note f = getZoneIDWithRetry_refines [of cf api deadline zoneName accountName s]
  show ?thesis using a b c d e f by blast
qed

lemmas example_defs =
  updateRecordWithRetry_def updateRecordWithRetry_loop.simps retry_pause_def
  getZoneIDWithRetry_def getZoneIDWithRetry_loop.simps
  updateRecord_def api_call_def store_api_def store_ListDNSRecords_def take_fault_def
  store_ZoneIDByName_def store_CreateDNSRecord_def store_UpdateDNSRecord_def
  example_store_def start_def fails_twice_def always_fails_def maxRetries_def backoff_wait_def
  emit_def initialBackoff_def maxBackoff_def Second_def

lemma retry_example_eval:
  "fst retry_example = None"
  "trace (snd retry_example) =
     [ListDNSRecords_call ''token'' ''zone1'' ''example.com'' ''A'',
      Log (LogRetryRecord ''example.com'' 1 3), TimerFired (1 * Second),
      ListDNSRecords_call ''token'' ''zone1'' ''example.com'' ''A'',
      Log (LogRetryRecord ''example.com'' 2 3), TimerFired (2 * Second),
      ListDNSRecords_call ''token'' ''zone1'' ''example.com'' ''A'',
      UpdateDNSRecord_call ''token'' ''zone1'' ''rec1'' ''A'' ''example.com'' ''203.0.113.2'' 1 (Some True),
      Log (LogUpdated ''example.com'' ''203.0.113.2'')]"
  by (simp_all add: retry_example_def example_defs)

lemma zone_retry_example_eval:
  "fst zone_retry_example = Inl ctx_err"
  "trace (snd zone_retry_example) =
     [ZoneIDByName_call ''token'' ''example.com'',
      Log (LogRetryZoneID ''home'' ''example.com'' 1 3), TimerFired (1 * Second),
      ZoneIDByName_call ''token'' ''example.com'',
      Log (LogRetryZoneID ''home'' ''example.com'' 2 3), CtxDone (2 * Second)]"
  "clock (snd zone_retry_example) = 3 * Second"
  by (simp_all add: zone_retry_example_def example_defs)

theorem retry_policy_witness:
  "(\<exists>evs. trace (snd retry_example) = trace (start (example_store fails_twice)) @ evs
      \<and> attempts_made evs \<le> 1 + 3
      \<and> prefix (backoffs evs) [1 * Second, 2 * Second, 4 * Second]
      \<and> ctx_ends (fst retry_example = Some ctx_err) evs
      \<and> alternates (marks evs))
   \<and> (\<exists>evs. trace (snd zone_retry_example) = trace (start (example_store always_fails)) @ evs
      \<and> attempts_made evs \<le> 1 + 3
      \<and> prefix (backoffs evs) [1 * Second, 2 * Second, 4 * Second]
      \<and> ctx_ends (fst zone_retry_example = Inl ctx_err) evs
      \<and> alternates (marks evs))
   \<and> schedule 5 initialBackoff ! 4 = min (2 ^ 4 * Second) (10 * Second)
   \<and> attempts_made (trace (snd retry_example)) = 3
   \<and> backoffs (trace (snd retry_example)) = [1 * Second, 2 * Second]
   \<and> fst retry_example = None
   \<and> backoffs (trace (snd zone_retry_example)) = [1 * Second, 2 * Second]
   \<and> fst zone_retry_example = Inl ctx_err
   \<and> marks (trace (snd zone_retry_example))
       = [ZoneIDByName_call ''token'' ''example.com'', TimerFired (1 * Second),
          ZoneIDByName_call ''token'' ''example.com'', CtxDone (2 * Second)]
   \<and> clock (snd zone_retry_example) = 3 * Second
   \<and> 3 * Second < clock (start (example_store [])) + 4 * Second
   \<and> fst (backoff_wait (3 * Second) (4 * Second) (start (example_store []))) = False
   \<and> clock (snd (backoff_wait (3 * Second) (4 * Second) (start (example_store [])))) = 3 * Second"
proof -
  have a: "updateRecordWithRetry (store_api []) ''token'' (60 * Second) ''zone1'' ''example.com''
       ''203.0.113.2'' ''home'' (start (example_store fails_twice))
       = (fst retry_example, snd retry_example)"
    by (simp add: retry_example_def)
  have b: "getZoneIDWithRetry (store_api []) ''token'' (2 * Second) ''example.com'' ''home''
       (start (example_store always_fails)) = (fst zone_retry_example, snd zone_retry_example)"
    by (simp add: zone_retry_example_def)
  have c: "3 * Second < clock (start (example_store [])) + 4 * Second"
    by (simp add: start_def Second_def)
  note th = retry_policy [where n = 5 and deadline = "3 * Second" and backoff = "4 * Second"
      and s = "start (example_store [])"]
  note ta = retry_policy [THEN conjunct1, rule_format, OF a]
  note tb = retry_policy [THEN conjunct2, THEN conjunct1, rule_format, OF b]
  have d: "schedule 5 initialBackoff ! 4 = min (2 ^ 4 * Second) (10 * Second)"
    using th by simp
  have e: "fst (backoff_wait (3 * Second) (4 * Second) (start (example_store []))) = False"
    "clock (snd (backoff_wait (3 * Second) (4 * Second) (start (example_store [])))) = 3 * Second"
    using th c by (simp_all add: start_def Second_def)
  have f: "attempts_made (trace (snd retry_example)) = 3"
    "backoffs (trace (snd retry_example)) = [1 * Second, 2 * Second]"
    "backoffs (trace (snd zone_retry_example)) = [1 * Second, 2 * Second]"
    by (simp_all add: retry_example_eval zone_retry_example_eval attempts_made_def is_attempt_def)
  have g: "marks (trace (snd zone_retry_example))
       = [ZoneIDByName_call ''token'' ''example.com'', TimerFired (1 * Second),
          ZoneIDByName_call ''token'' ''example.com'', CtxDone (2 * Second)]"
    by (simp add: zone_retry_example_eval marks_def is_attempt_def is_wait_def)
  show ?thesis
    using ta tb c d e f g retry_example_eval(1) zone_retry_example_eval(1,3) by blast
qed

section \<open>Invariants of the retry loops and of a run on the store\<close>

lemma updateRecordWithRetry_loop_rule:
  assumes pause: "\<And>a b s p s1. I s \<Longrightarrow>
                 retry_pause (LogRetryRecord d a maxRetries) dl a b s = (p, s1) \<Longrightarrow> I s1"
    and body: "\<And>s r s'. I s \<Longrightarrow> updateRecord cf api z d ip s = (r, s') \<Longrightarrow>
                 (case r of None \<Rightarrow> Q s' | Some e \<Rightarrow> I s')"
    and inv: "I s"
    and run: "updateRecordWithRetry_loop cf api dl z d ip acc a b le s = (r, s')"
  shows "case r of None \<Rightarrow> Q s' | Some e \<Rightarrow> I s'"
  using assms
proof (induction cf api dl z d ip acc a b le s arbitrary: r s' rule: updateRecordWithRetry_loop.induct)
  case (1 cf api dl z d ip acc a b le s)
  note pause = "1.prems"(1) and body = "1.prems"(2) and inv = "1.prems"(3) and run = "1.prems"(4)
  show ?case
  proof (cases "a \<le> maxRetries")
    case False
    then show ?thesis using inv run by (auto simp: updateRecordWithRetry_loop.simps)
  next
    case le: True
    obtain p s1 where p: "retry_pause (LogRetryRecord d a maxRetries) dl a b s = (p, s1)"
      by (cases "retry_pause (LogRetryRecord d a maxRetries) dl a b s")
    have i1: "I s1" using pause inv p by blast
    show ?thesis
    proof (cases p)
      case None
      then show ?thesis using run le p i1 by (auto simp: updateRecordWithRetry_loop.simps)
    next
      case (Some b')
      obtain r1 s2 where u: "updateRecord cf api z d ip s1 = (r1, s2)"
        by (cases "updateRecord cf api z d ip s1")
      show ?thesis
      proof (cases r1)
        case None
        then show ?thesis using run le p Some u body [OF i1 u]
          by (auto simp: updateRecordWithRetry_loop.simps)
      next
        case (Some err)
        then have i2: "I s2" using body [OF i1 u] by simp
        have "updateRecordWithRetry_loop cf api dl z d ip acc (Suc a) b' (Some err) s2 = (r, s')"
          using run le p \<open>p = Some b'\<close> u Some by (auto simp: updateRecordWithRetry_loop.simps)
        from "1.IH" [OF le p [symmetric] \<open>p = Some b'\<close> u [symmetric] Some pause body i2 this]
        show ?thesis .
      qed
    qed
  qed
qed

lemma getZoneIDWithRetry_loop_rule:
  assumes pause: "\<And>a b s p s1. I s \<Longrightarrow>
                 retry_pause (LogRetryZoneID acc zn a maxRetries) dl a b s = (p, s1) \<Longrightarrow> I s1"
    and body: "\<And>s r s'. I s \<Longrightarrow>
                 api_call (ZoneIDByName_call api zn) (ZoneIDByName cf api zn) s = (r, s') \<Longrightarrow>
                 (case r of Inr zoneID \<Rightarrow> Q zoneID s' | Inl e \<Rightarrow> I s')"
    and inv: "I s"
    and run: "getZoneIDWithRetry_loop cf api dl zn acc a b le s = (r, s')"
  shows "case r of Inr zoneID \<Rightarrow> Q zoneID s' | Inl e \<Rightarrow> I s'"
  using assms
proof (induction cf api dl zn acc a b le s arbitrary: r s' rule: getZoneIDWithRetry_loop.induct)
  case (1 cf api dl zn acc a b le s)
  note pause = "1.prems"(1) and body = "1.prems"(2) and inv = "1.prems"(3) and run = "1.prems"(4)
  show ?case
  proof (cases "a \<le> maxRetries")
    case False
    then show ?thesis using inv run by (auto simp: getZoneIDWithRetry_loop.simps)
  next
    case le: True
    obtain p s1 where p: "retry_pause (LogRetryZoneID acc zn a maxRetries) dl a b s = (p, s1)"
      by (cases "retry_pause (LogRetryZoneID acc zn a maxRetries) dl a b s")
    have i1: "I s1" using pause inv p by blast
    show ?thesis
    proof (cases p)
      case None
      then show ?thesis using run le p i1 by (auto simp: getZoneIDWithRetry_loop.simps)
    next
      case (Some b')
      obtain r1 s2 where u:
        "api_call (ZoneIDByName_call api zn) (ZoneIDByName cf api zn) s1 = (r1, s2)"
        by (cases "api_call (ZoneIDByName_call api zn) (ZoneIDByName cf api zn) s1")
      show ?thesis
      proof (cases r1)
        case (Inr zoneID)
        then show ?thesis using run le p Some u body [OF i1 u]
          by (auto simp: getZoneIDWithRetry_loop.simps)
      next
        case (Inl err)
        then have i2: "I s2" using body [OF i1 u] by simp
        have "getZoneIDWithRetry_loop cf api dl zn acc (Suc a) b' (Some err) s2 = (r, s')"
          using run le p Some u Inl by (auto simp: getZoneIDWithRetry_loop.simps)
        from "1.IH" [OF le p [symmetric] Some u [symmetric] Inl pause body i2 this]
        show ?thesis .
      qed
    qed
  qed
qed

lemmas store_defs = store_api_def store_ZoneIDByName_def store_ListDNSRecords_def
  store_CreateDNSRecord_def store_UpdateDNSRecord_def take_fault_def

lemma unchanged_pause:
  "unchanged d zs m s \<Longrightarrow> retry_pause line dl a b s = (p, s1) \<Longrightarrow> unchanged d zs m s1"
  by (auto simp: unchanged_def retry_pause_def backoff_wait_def emit_def mutations_def
      is_mutation_def split: if_splits)

lemma unchanged_emit:
  "\<not> is_mutation e \<Longrightarrow> unchanged d zs m s \<Longrightarrow> unchanged d zs m (emit e s)"
  by (simp add: unchanged_def emit_def mutations_def)

lemma unchanged_zone_call:
  "unchanged d zs m s \<Longrightarrow>
   api_call (ZoneIDByName_call api zn) (ZoneIDByName (store_api rej) api zn) s = (r, s') \<Longrightarrow>
   (case r of Inr zoneID \<Rightarrow> unchanged d zs m s' \<and> zs zn = Some zoneID | Inl e \<Rightarrow> unchanged d zs m s')"
  by (auto simp: unchanged_def api_call_def store_defs mutations_def is_mutation_def
      split: prod.splits list.splits option.splits sum.splits)

lemma unchanged_updateRecord:
  "unchanged d zs m s \<Longrightarrow> head_is ip d (zoneID, domain) \<Longrightarrow>
   updateRecord (store_api rej) api zoneID domain ip s = (r, s') \<Longrightarrow>
   (case r of None \<Rightarrow> unchanged d zs m s' | Some e \<Rightarrow> unchanged d zs m s')"
  by (auto simp: unchanged_def updateRecord_def api_call_def store_defs mutations_def
      is_mutation_def head_is_def emit_def
      split: prod.splits list.splits option.splits sum.splits if_splits)

lemma unchanged_updateRecordWithRetry:
  assumes "unchanged d zs m s" "head_is ip d (zoneID, domain)"
    "updateRecordWithRetry (store_api rej) api dl zoneID domain ip acc s = (r, s')"
  shows "unchanged d zs m s'"
proof -
  have "case r of None \<Rightarrow> unchanged d zs m s' | Some e \<Rightarrow> unchanged d zs m s'"
    using assms(3) unfolding updateRecordWithRetry_def
    by (rule updateRecordWithRetry_loop_rule [rotated 3, where I = "unchanged d zs m"])
       (auto intro: unchanged_pause unchanged_updateRecord assms)
  then show ?thesis by (cases r) auto
qed

lemma unchanged_update_records:
  "unchanged d zs m s \<Longrightarrow>
   \<forall>record \<in> set records. head_is ip d (zoneID, fullDomain record zn) \<Longrightarrow>
   unchanged d zs m (update_records (store_api rej) db api dl zoneID zn acc ip records s)"
proof (induction records arbitrary: s)
  case Nil
  then show ?case by simp
next
  case (Cons rcd rest)
  obtain r s1 where u: "updateRecordWithRetry (store_api rej) api dl zoneID
      (fullDomain rcd zn) ip acc s = (r, s1)"
    by (cases "updateRecordWithRetry (store_api rej) api dl zoneID (fullDomain rcd zn) ip acc s")
  have s1: "unchanged d zs m s1"
    using unchanged_updateRecordWithRetry [OF Cons.prems(1) _ u] Cons.prems(2) by simp
  show ?case
  proof (cases r)
    case None
    have "unchanged d zs m (AddDNSUpdate_if db
        (AddDNSUpdate acc ip ''A'' (fullDomain rcd zn) True []) s1)"
      using s1 by (simp add: AddDNSUpdate_if_def unchanged_emit is_mutation_def)
    from Cons.IH [OF this] Cons.prems(2) show ?thesis using u None by simp
  next
    case (Some err)
    have "unchanged d zs m (emit (Log (LogRecordFailed (fullDomain rcd zn) err))
        (AddDNSUpdate_if db (AddDNSUpdate acc ip ''A'' (fullDomain rcd zn) False err) s1))"
      using s1 by (simp add: AddDNSUpdate_if_def unchanged_emit is_mutation_def)
    from Cons.IH [OF this] Cons.prems(2) show ?thesis using u Some by simp
  qed
qed

lemma unchanged_getZoneIDWithRetry:
  assumes "unchanged d zs m s"
    "getZoneIDWithRetry (store_api rej) api dl zn acc s = (r, s')"
  shows "case r of Inr zoneID \<Rightarrow> unchanged d zs m s' \<and> zs zn = Some zoneID
         | Inl e \<Rightarrow> unchanged d zs m s'"
  using assms(2) unfolding getZoneIDWithRetry_def
  by (rule getZoneIDWithRetry_loop_rule [rotated 3, where I = "unchanged d zs m"])
     (auto intro: unchanged_pause unchanged_zone_call assms)

lemma unchanged_update_zone:
  assumes "unchanged d zs m s" "\<forall>k \<in> zone_keys zs zone. head_is ip d k"
  shows "unchanged d zs m (update_zone (store_api rej) db api acc ip zone s)"
proof -
  let ?dl = "clock s + 60 * Second"
  obtain r s1 where z: "getZoneIDWithRetry (store_api rej) api ?dl (ZoneName zone) acc s = (r, s1)"
    by (cases "getZoneIDWithRetry (store_api rej) api ?dl (ZoneName zone) acc s")
  note zz = unchanged_getZoneIDWithRetry [OF assms(1) z]
  show ?thesis
  proof (cases r)
    case (Inl err)
    then show ?thesis using z zz
      by (simp add: update_zone_def unchanged_emit is_mutation_def)
  next
    case (Inr zoneID)
    then have s1: "unchanged d zs m s1" and zid: "zs (ZoneName zone) = Some zoneID"
      using zz by auto
    have "\<forall>record \<in> set (Records zone). head_is ip d (zoneID, fullDomain record (ZoneName zone))"
      using assms(2) zid by (auto simp: zone_keys_def)
    from unchanged_update_records [OF s1 this] show ?thesis
      using z Inr by (simp add: update_zone_def)
  qed
qed

lemma unchanged_update_zones:
  "unchanged d zs m s \<Longrightarrow> \<forall>zone \<in> set zones. \<forall>k \<in> zone_keys zs zone. head_is ip d k \<Longrightarrow>
   unchanged d zs m (update_zones (store_api rej) db api acc ip zones s)"
  by (induction zones arbitrary: s) (auto intro: unchanged_update_zone)

lemma unchanged_update_accounts:
  "unchanged d zs m s \<Longrightarrow>
   \<forall>account \<in> set accounts. \<forall>k \<in> account_keys rej zs account. head_is ip d k \<Longrightarrow>
   unchanged d zs m (update_accounts (store_api rej) db ip accounts s)"
proof (induction accounts arbitrary: s)
  case Nil
  then show ?case by simp
next
  case (Cons account rest)
  show ?case
  proof (cases "APIToken account = [] \<or> APIToken account \<in> set rej")
    case True
    then show ?thesis using Cons
      by (auto simp: store_api_def unchanged_emit is_mutation_def)
  next
    case False
    then have keys: "\<forall>zone \<in> set (Zones account). \<forall>k \<in> zone_keys zs zone. head_is ip d k"
      using Cons.prems(2) by (auto simp: account_keys_def)
    have "unchanged d zs m (emit (Log (LogDebugToken (Name account)
        (tokenPrefix (APIToken account)) (length (APIToken account)))) s)"
      using Cons.prems(1) by (simp add: unchanged_emit is_mutation_def)
    from unchanged_update_zones [OF this keys]
    show ?thesis using False Cons by (auto simp: store_api_def)
  qed
qed

lemma reconciled_pause:
  "reconciled ip zs ks s \<Longrightarrow> retry_pause line dl a b s = (p, s1) \<Longrightarrow> reconciled ip zs ks s1"
  by (auto simp: reconciled_def retry_pause_def backoff_wait_def emit_def split: if_splits)

lemma reconciled_emit: "reconciled ip zs ks s \<Longrightarrow> reconciled ip zs ks (emit e s)"
  by (simp add: reconciled_def emit_def)

lemma reconciled_zone_call:
  "reconciled ip zs ks s \<Longrightarrow>
   api_call (ZoneIDByName_call api zn) (ZoneIDByName (store_api rej) api zn) s = (r, s') \<Longrightarrow>
   (case r of Inr zoneID \<Rightarrow> reconciled ip zs ks s' \<and> zs zn = Some zoneID
    | Inl e \<Rightarrow> reconciled ip zs ks s')"
  by (auto simp: reconciled_def api_call_def store_defs
      split: prod.splits list.splits option.splits sum.splits)

lemma reconciled_updateRecord:
  assumes "reconciled ip zs ks s"
    and "updateRecord (store_api rej) api zoneID domain ip s = (r, s')"
  shows "r = None \<and> reconciled ip zs (insert (zoneID, domain) ks) s'"
proof (cases "dns (remote s) (zoneID, domain)")
  case Nil
  then show ?thesis using assms
    by (auto simp: reconciled_def updateRecord_def api_call_def store_defs emit_def head_is_def)
next
  case (Cons x xs)
  then show ?thesis using assms
    by (auto simp: reconciled_def updateRecord_def api_call_def store_defs emit_def head_is_def
        split: if_splits)
qed

lemma reconciled_updateRecordWithRetry:
  assumes "reconciled ip zs ks s"
    and "updateRecordWithRetry (store_api rej) api dl zoneID domain ip acc s = (r, s')"
  shows "r = None \<and> reconciled ip zs (insert (zoneID, domain) ks) s'"
proof -
  obtain r1 s1 where u: "updateRecord (store_api rej) api zoneID domain ip s = (r1, s1)"
    by (cases "updateRecord (store_api rej) api zoneID domain ip s")
  from reconciled_updateRecord [OF assms(1) u]
  have r1: "r1 = None" and s1: "reconciled ip zs (insert (zoneID, domain) ks) s1" by auto
  have "updateRecordWithRetry (store_api rej) api dl zoneID domain ip acc s = (None, s1)"
    unfolding updateRecordWithRetry_def
    by (subst updateRecordWithRetry_loop.simps) (simp add: retry_pause_def u r1)
  then show ?thesis using assms(2) s1 by simp
qed

lemma reconciled_update_records:
  "reconciled ip zs ks s \<Longrightarrow>
   reconciled ip zs (ks \<union> (\<lambda>rcd. (zoneID, fullDomain rcd zn)) ` set records)
     (update_records (store_api rej) db api dl zoneID zn acc ip records s)"
proof (induction records arbitrary: s ks)
  case Nil
  then show ?case by simp
next
  case (Cons rcd rest)
  obtain r s1 where u: "updateRecordWithRetry (store_api rej) api dl zoneID
      (fullDomain rcd zn) ip acc s = (r, s1)"
    by (cases "updateRecordWithRetry (store_api rej) api dl zoneID (fullDomain rcd zn) ip acc s")
  from reconciled_updateRecordWithRetry [OF Cons.prems u]
  have r: "r = None" and s1: "reconciled ip zs (insert (zoneID, fullDomain rcd zn) ks) s1"
    by auto
  have "reconciled ip zs (insert (zoneID, fullDomain rcd zn) ks)
      (AddDNSUpdate_if db (AddDNSUpdate acc ip ''A'' (fullDomain rcd zn) True []) s1)"
    using s1 by (simp add: AddDNSUpdate_if_def reconciled_emit)
  from Cons.IH [OF this] show ?case using u r by simp
qed

lemma reconciled_getZoneIDWithRetry:
  assumes "reconciled ip zs ks s"
    "getZoneIDWithRetry (store_api rej) api dl zn acc s = (r, s')"
  shows "case r of Inr zoneID \<Rightarrow> reconciled ip zs ks s' \<and> zs zn = Some zoneID
         | Inl e \<Rightarrow> reconciled ip zs ks s'"
  using assms(2) unfolding getZoneIDWithRetry_def
  by (rule getZoneIDWithRetry_loop_rule [rotated 3, where I = "reconciled ip zs ks"])
     (auto intro: reconciled_pause reconciled_zone_call assms)

lemma reconciled_mono: "reconciled ip zs ks s \<Longrightarrow> ks' \<subseteq> ks \<Longrightarrow> reconciled ip zs ks' s"
  by (auto simp: reconciled_def)

lemma reconciled_zone_found:
  assumes "reconciled ip zs ks s" "zs zn = Some zoneID"
    "getZoneIDWithRetry (store_api rej) api dl zn acc s = (r, s')"
  shows "r = Inr zoneID \<and> reconciled ip zs ks s'"
proof -
  obtain r1 s1 where u:
    "api_call (ZoneIDByName_call api zn) (ZoneIDByName (store_api rej) api zn) s = (r1, s1)"
    by (cases "api_call (ZoneIDByName_call api zn) (ZoneIDByName (store_api rej) api zn) s")
  have r1: "r1 = Inr zoneID" and s1: "reconciled ip zs ks s1"
    using u assms(1,2) by (auto simp: reconciled_def api_call_def store_defs)
  have "getZoneIDWithRetry (store_api rej) api dl zn acc s = (Inr zoneID, s1)"
    unfolding getZoneIDWithRetry_def
    by (subst getZoneIDWithRetry_loop.simps) (simp add: retry_pause_def u r1)
  then show ?thesis using assms(3) s1 by simp
qed

lemma reconciled_update_zone:
  assumes "reconciled ip zs ks s"
  shows "reconciled ip zs (ks \<union> zone_keys zs zone)
           (update_zone (store_api rej) db api acc ip zone s)"
proof -
  let ?dl = "clock s + 60 * Second"
  obtain r s1 where z: "getZoneIDWithRetry (store_api rej) api ?dl (ZoneName zone) acc s = (r, s1)"
    by (cases "getZoneIDWithRetry (store_api rej) api ?dl (ZoneName zone) acc s")
  show ?thesis
  proof (cases "zs (ZoneName zone)")
    case None
    note zz = reconciled_getZoneIDWithRetry [OF assms z]
    have keys: "zone_keys zs zone = {}" using None by (simp add: zone_keys_def)
    show ?thesis
    proof (cases r)
      case (Inl err)
      then show ?thesis using z zz keys by (simp add: update_zone_def reconciled_emit)
    next
      case (Inr zoneID)
      then show ?thesis using zz None by simp
    qed
  next
    case (Some zoneID)
    from reconciled_zone_found [OF assms Some z]
    have r: "r = Inr zoneID" and s1: "reconciled ip zs ks s1" by auto
    from reconciled_update_records [OF s1, of zoneID "ZoneName zone" "Records zone"] show ?thesis
      using z r Some by (simp add: update_zone_def zone_keys_def)
  qed
qed

lemma reconciled_update_zones:
  "reconciled ip zs ks s \<Longrightarrow>
   reconciled ip zs (ks \<union> (\<Union>zone \<in> set zones. zone_keys zs zone))
     (update_zones (store_api rej) db api acc ip zones s)"
proof (induction zones arbitrary: s ks)
  case Nil
  then show ?case by simp
next
  case (Cons zone rest)
  from Cons.IH [OF reconciled_update_zone [OF Cons.prems]]
  show ?case by (simp add: Un_assoc)
qed

lemma reconciled_update_accounts:
  "reconciled ip zs ks s \<Longrightarrow>
   reconciled ip zs (ks \<union> (\<Union>account \<in> set accounts. account_keys rej zs account))
     (update_accounts (store_api rej) db ip accounts s)"
proof (induction accounts arbitrary: s ks)
  case Nil
  then show ?case by simp
next
  case (Cons account rest)
  show ?case
  proof (cases "APIToken account = [] \<or> APIToken account \<in> set rej")
    case True
    then have k: "account_keys rej zs account = {}" by (simp add: account_keys_def)
    show ?thesis
    proof (cases "APIToken account = []")
      case True
      then show ?thesis using Cons.IH [OF Cons.prems] k by simp
    next
      case False
      then have "NewWithAPIToken (store_api rej) (APIToken account) = Some ''invalid credentials''"
        using True by (simp add: store_api_def)
      then show ?thesis
        using Cons.IH [OF reconciled_emit [OF Cons.prems]] k False by simp
    qed
  next
    case False
    then have k: "account_keys rej zs account = (\<Union>zone \<in> set (Zones account). zone_keys zs zone)"
      by (simp add: account_keys_def)
    have n: "NewWithAPIToken (store_api rej) (APIToken account) = None"
      using False by (simp add: store_api_def)
    from Cons.IH [OF reconciled_update_zones [OF reconciled_emit [OF Cons.prems]]]
    show ?thesis using False k n by (simp add: Un_assoc)
  qed
qed

lemma reconciled_settled:
  "reconciled ip zs (\<Union>account \<in> set accounts. account_keys rej zs account) s \<Longrightarrow>
   settled ip rej accounts (remote s)"
  by (auto simp: reconciled_def settled_def)

lemma kept_mono: "kept ip zs F ks s \<Longrightarrow> ks' \<subseteq> ks \<Longrightarrow> kept ip zs F ks' s"
  by (auto simp: kept_def)

lemma kept_pause:
  "kept ip zs F ks s \<Longrightarrow> \<not> is_failure (Log line) \<Longrightarrow> retry_pause line dl a b s = (p, s1) \<Longrightarrow>
   kept ip zs F ks s1"
  by (auto simp: kept_def retry_pause_def backoff_wait_def emit_def failures_def is_failure_def
      split: if_splits)

lemma kept_emit: "\<not> is_failure e \<Longrightarrow> kept ip zs F ks s \<Longrightarrow> kept ip zs F ks (emit e s)"
  by (simp add: kept_def emit_def failures_def)

lemma kept_emit_failure:
  "is_failure e \<Longrightarrow> kept ip zs F ks s \<Longrightarrow> kept ip zs (F @ [e]) ks (emit e s)"
  by (auto simp add: kept_def emit_def failures_def)

lemma kept_zone_call:
  "kept ip zs F ks s \<Longrightarrow>
   api_call (ZoneIDByName_call api zn) (ZoneIDByName (store_api rej) api zn) s = (r, s') \<Longrightarrow>
   (case r of Inr zoneID \<Rightarrow> kept ip zs F ks s' \<and> zs zn = Some zoneID | Inl e \<Rightarrow> kept ip zs F ks s')"
  by (auto simp: kept_def api_call_def store_defs failures_def is_failure_def
      split: prod.splits list.splits option.splits sum.splits)

lemma head_is_upd:
  "head_is ip (d(k := xs)) k' =
     (if k' = k then (case xs of [] \<Rightarrow> False | r # rs \<Rightarrow> Content r = ip) else head_is ip d k')"
  by (simp add: head_is_def)

lemma kept_updateRecord:
  assumes "kept ip zs F ks s"
    and "updateRecord (store_api rej) api zoneID domain ip s = (r, s')"
  shows "case r of None \<Rightarrow> kept ip zs F (insert (zoneID, domain) ks) s'
         | Some e \<Rightarrow> kept ip zs F ks s'"
proof (cases "dns (remote s) (zoneID, domain)")
  case Nil
  then show ?thesis using assms
    by (auto simp: kept_def updateRecord_def api_call_def store_defs emit_def head_is_upd
        failures_def is_failure_def split: list.splits option.splits prod.splits)
next
  case (Cons x xs)
  then have h: "head_is ip (dns (remote s)) (zoneID, domain) = (Content x = ip)"
    by (simp add: head_is_def)
  show ?thesis using Cons assms h
    by (auto simp: kept_def updateRecord_def api_call_def store_defs emit_def head_is_upd
        failures_def is_failure_def split: if_splits list.splits option.splits prod.splits)
qed

lemma kept_pause_record:
  "kept ip zs F ks s \<Longrightarrow> retry_pause (LogRetryRecord d a m) dl a b s = (p, s1) \<Longrightarrow>
   kept ip zs F ks s1"
  by (rule kept_pause) (simp_all add: is_failure_def)

lemma kept_pause_zone:
  "kept ip zs F ks s \<Longrightarrow> retry_pause (LogRetryZoneID acc zn a m) dl a b s = (p, s1) \<Longrightarrow>
   kept ip zs F ks s1"
  by (rule kept_pause) (simp_all add: is_failure_def)

lemma kept_updateRecordWithRetry:
  assumes "kept ip zs F ks s"
    and "updateRecordWithRetry (store_api rej) api dl zoneID domain ip acc s = (r, s')"
  shows "case r of None \<Rightarrow> kept ip zs F (insert (zoneID, domain) ks) s'
         | Some e \<Rightarrow> kept ip zs F ks s'"
  using assms(2) unfolding updateRecordWithRetry_def
  by (rule updateRecordWithRetry_loop_rule [rotated 3, where I = "kept ip zs F ks"])
     (auto intro: kept_pause_record kept_updateRecord assms)

lemma kept_getZoneIDWithRetry:
  assumes "kept ip zs F ks s"
    "getZoneIDWithRetry (store_api rej) api dl zn acc s = (r, s')"
  shows "case r of Inr zoneID \<Rightarrow> kept ip zs F ks s' \<and> zs zn = Some zoneID
         | Inl e \<Rightarrow> kept ip zs F ks s'"
  using assms(2) unfolding getZoneIDWithRetry_def
  by (rule getZoneIDWithRetry_loop_rule [rotated 3, where I = "kept ip zs F ks"])
     (auto intro: kept_pause_zone kept_zone_call assms)

lemma progress_cases:
  assumes "progress ip zs F ks s"
  obtains (ok) "kept ip zs F ks s"
    | (failed) F' where "kept ip zs F' {} s" "length F < length F'"
  using assms by (auto simp: progress_def kept_def)

lemma progress_kept: "kept ip zs F ks s \<Longrightarrow> progress ip zs F ks s"
  by (simp add: progress_def)

lemma progress_failed: "kept ip zs F' ks' s \<Longrightarrow> length F < length F' \<Longrightarrow> progress ip zs F ks s"
  by (auto simp: progress_def kept_def)

lemma progress_mono: "progress ip zs F ks s \<Longrightarrow> ks' \<subseteq> ks \<Longrightarrow> progress ip zs F ks' s"
  by (auto simp: progress_def kept_def)

lemma progress_emit: "\<not> is_failure e \<Longrightarrow> progress ip zs F ks s \<Longrightarrow> progress ip zs F ks (emit e s)"
  by (auto simp: progress_def kept_def emit_def failures_def)

lemma progress_update_records:
  "progress ip zs F ks s \<Longrightarrow>
   progress ip zs F (ks \<union> (\<lambda>rcd. (zoneID, fullDomain rcd zn)) ` set records)
     (update_records (store_api rej) db api dl zoneID zn acc ip records s)"
proof (induction records arbitrary: s ks)
  case Nil
  then show ?case by simp
next
  case (Cons rcd rest)
  let ?k = "(zoneID, fullDomain rcd zn)"
  obtain r s1 where u: "updateRecordWithRetry (store_api rej) api dl zoneID
      (fullDomain rcd zn) ip acc s = (r, s1)"
    by (cases "updateRecordWithRetry (store_api rej) api dl zoneID (fullDomain rcd zn) ip acc s")
  have ok: "progress ip zs F (insert ?k ks)
      (AddDNSUpdate_if db (AddDNSUpdate acc ip ''A'' (fullDomain rcd zn) True []) s1)"
    if "r = None"
    using Cons.prems
  proof (cases rule: progress_cases)
    case ok
    from kept_updateRecordWithRetry [OF ok u] that
    have "kept ip zs F (insert ?k ks) s1" by simp
    then show ?thesis
      by (simp add: AddDNSUpdate_if_def kept_emit is_failure_def progress_kept)
  next
    case (failed F')
    from kept_updateRecordWithRetry [OF failed(1) u] that
    have "kept ip zs F' {?k} s1" by simp
    then have "kept ip zs F' {?k}
        (AddDNSUpdate_if db (AddDNSUpdate acc ip ''A'' (fullDomain rcd zn) True []) s1)"
      by (simp add: AddDNSUpdate_if_def kept_emit is_failure_def)
    then show ?thesis using failed(2) by (rule progress_failed)
  qed
  have bad: "progress ip zs F (insert ?k ks)
      (emit (Log (LogRecordFailed (fullDomain rcd zn) err))
        (AddDNSUpdate_if db (AddDNSUpdate acc ip ''A'' (fullDomain rcd zn) False err) s1))"
    if "r = Some err" for err
  proof -
    obtain F' where k: "kept ip zs F' {} s" and l: "length F \<le> length F'"
      using Cons.prems by (cases rule: progress_cases) (auto intro: kept_mono)
    from kept_updateRecordWithRetry [OF k u] that have "kept ip zs F' {} s1" by simp
    then have "kept ip zs F' {}
        (AddDNSUpdate_if db (AddDNSUpdate acc ip ''A'' (fullDomain rcd zn) False err) s1)"
      by (simp add: AddDNSUpdate_if_def kept_emit is_failure_def)
    then have "kept ip zs (F' @ [Log (LogRecordFailed (fullDomain rcd zn) err)]) {}
        (emit (Log (LogRecordFailed (fullDomain rcd zn) err))
          (AddDNSUpdate_if db (AddDNSUpdate acc ip ''A'' (fullDomain rcd zn) False err) s1))"
      by (intro kept_emit_failure) (simp_all add: is_failure_def)
    then show ?thesis by (rule progress_failed) (use l in simp)
  qed
  show ?case
  proof (cases r)
    case None
    from Cons.IH [OF ok [OF None]] show ?thesis using u None by simp
  next
    case (Some err)
    from Cons.IH [OF bad [OF Some]] show ?thesis using u Some by simp
  qed
qed

lemma progress_update_zone:
  assumes "progress ip zs F ks s"
  shows "progress ip zs F (ks \<union> zone_keys zs zone)
           (update_zone (store_api rej) db api acc ip zone s)"
proof -
  let ?dl = "clock s + 60 * Second"
  obtain r s1 where z: "getZoneIDWithRetry (store_api rej) api ?dl (ZoneName zone) acc s = (r, s1)"
    by (cases "getZoneIDWithRetry (store_api rej) api ?dl (ZoneName zone) acc s")
  obtain F' where k: "kept ip zs F' {} s" and l: "length F \<le> length F'"
    using assms by (cases rule: progress_cases) (auto intro: kept_mono)
  note zz = kept_getZoneIDWithRetry [OF k z]
  show ?thesis
  proof (cases r)
    case (Inl err)
    then have "kept ip zs F' {} s1" using zz by simp
    then have "kept ip zs (F' @ [Log (LogZoneIDFailed acc (ZoneName zone) err)]) {}
        (emit (Log (LogZoneIDFailed acc (ZoneName zone) err)) s1)"
      by (intro kept_emit_failure) (simp_all add: is_failure_def)
    then have "progress ip zs F (ks \<union> zone_keys zs zone)
        (emit (Log (LogZoneIDFailed acc (ZoneName zone) err)) s1)"
      by (rule progress_failed) (use l in simp)
    then show ?thesis using z Inl by (simp add: update_zone_def)
  next
    case (Inr zoneID)
    then have zid: "zs (ZoneName zone) = Some zoneID" using zz by simp
    have "progress ip zs F ks s1"
      using assms
    proof (cases rule: progress_cases)
      case ok
      from kept_getZoneIDWithRetry [OF ok z] Inr show ?thesis by (simp add: progress_kept)
    next
      case (failed F'')
      from kept_getZoneIDWithRetry [OF failed(1) z] Inr have "kept ip zs F'' {} s1" by simp
      then show ?thesis using failed(2) by (rule progress_failed)
    qed
    from progress_update_records [OF this, of zoneID "ZoneName zone" "Records zone"]
    show ?thesis using z Inr zid by (simp add: update_zone_def zone_keys_def)
  qed
qed

lemma progress_update_zones:
  "progress ip zs F ks s \<Longrightarrow>
   progress ip zs F (ks \<union> (\<Union>zone \<in> set zones. zone_keys zs zone))
     (update_zones (store_api rej) db api acc ip zones s)"
proof (induction zones arbitrary: s ks)
  case Nil
  then show ?case by simp
next
  case (Cons zone rest)
  from Cons.IH [OF progress_update_zone [OF Cons.prems]]
  show ?case by (simp add: Un_assoc)
qed

lemma progress_update_accounts:
  "progress ip zs F ks s \<Longrightarrow>
   progress ip zs F (ks \<union> (\<Union>account \<in> set accounts. account_keys rej zs account))
     (update_accounts (store_api rej) db ip accounts s)"
proof (induction accounts arbitrary: s ks)
  case Nil
  then show ?case by simp
next
  case (Cons account rest)
  have e: "progress ip zs F ks (emit (Log l) s)" if "\<not> is_failure (Log l)" for l
    using that Cons.prems by (rule progress_emit)
  show ?case
  proof (cases "APIToken account = [] \<or> APIToken account \<in> set rej")
    case True
    then have k: "account_keys rej zs account = {}" by (simp add: account_keys_def)
    show ?thesis
    proof (cases "APIToken account = []")
      case True
      then show ?thesis using Cons.IH [OF Cons.prems] k by simp
    next
      case False
      then have "NewWithAPIToken (store_api rej) (APIToken account) = Some ''invalid credentials''"
        using True by (simp add: store_api_def)
      moreover have "progress ip zs F ks
          (emit (Log (LogClientFailed (Name account) ''invalid credentials'')) s)"
        by (rule e) (simp add: is_failure_def)
      ultimately show ?thesis using Cons.IH k False by simp
    qed
  next
    case False
    then have k: "account_keys rej zs account = (\<Union>zone \<in> set (Zones account). zone_keys zs zone)"
      by (simp add: account_keys_def)
    have n: "NewWithAPIToken (store_api rej) (APIToken account) = None"
      using False by (simp add: store_api_def)
    have "progress ip zs F ks (emit (Log (LogDebugToken (Name account)
        (tokenPrefix (APIToken account)) (length (APIToken account)))) s)"
      by (rule e) (simp add: is_failure_def)
    from Cons.IH [OF progress_update_zones [OF this]]
    show ?thesis using False k n by (simp add: Un_assoc)
  qed
qed

lemma progress_settled:
  "progress ip zs F (\<Union>account \<in> set accounts. account_keys rej zs account) s \<Longrightarrow>
   failures (trace s) = F \<Longrightarrow> settled ip rej accounts (remote s)"
  by (auto simp: progress_def kept_def settled_def)

lemma UpdateIP_settles:
  assumes "s1 = snd (UpdateIP (store_api rej) c ip s0)"
    and "failures (trace s1) = failures (trace s0)"
  shows "settled ip rej (CloudflareAccounts (Config c)) (remote s1)"
proof -
  have "progress ip (zone_ids (remote s0)) (failures (trace s0)) {} s0"
    by (simp add: progress_def kept_def)
  from progress_update_accounts [OF this, where accounts = "CloudflareAccounts (Config c)"
      and rej = rej and db = "DB_present c"]
  have "progress ip (zone_ids (remote s0)) (failures (trace s0))
      (\<Union>account \<in> set (CloudflareAccounts (Config c)). account_keys rej (zone_ids (remote s0)) account) s1"
    using assms(1) by (simp add: UpdateIP_def)
  from progress_settled [OF this assms(2)] show ?thesis .
qed

section \<open>Reconciliation of records\<close>

lemmas sync_defs =
  UpdateIP_def example_updater_def example_account_def
  update_zone_def fullDomain_def AddDNSUpdate_if_def tokenPrefix_def store_defs
  updateRecordWithRetry_def updateRecordWithRetry_loop.simps retry_pause_def
  getZoneIDWithRetry_def getZoneIDWithRetry_loop.simps
  updateRecord_def api_call_def example_store_def start_def maxRetries_def emit_def

text \<open>
  The claim C4 as stated fails, in both of its parts. The lookup returns two A records,
  the second of which already carries the target address, and \<open>updateRecord\<close> issues
  an update call for the first. And a synchronisation in which every lookup of the
  record fails makes no mutating call and leaves the example store as it is, with no
  fault pending; the synchronisation that follows it with the same address issues an
  update call.
\<close>

theorem updateRecord_matching_record_counterexample:
  "map Content (dns two_records_store (''zone1'', ''example.com''))
     = [''203.0.113.1'', ''203.0.113.2'']
   \<and> mutations (trace (snd (updateRecord (store_api []) ''token'' ''zone1'' ''example.com''
          ''203.0.113.2'' (start two_records_store))))
     = [UpdateDNSRecord_call ''token'' ''zone1'' ''rec1'' ''A'' ''example.com''
          ''203.0.113.2'' 1 None]
   \<and> mutations (trace failed_sync) = []
   \<and> remote failed_sync = example_store []
   \<and> mutations (trace retried_sync)
     = [UpdateDNSRecord_call ''0123456789abcdefghij'' ''zone1'' ''rec1'' ''A'' ''example.com''
          ''203.0.113.2'' 1 (Some True)]"
proof -
  have a: "map Content (dns two_records_store (''zone1'', ''example.com''))
     = [''203.0.113.1'', ''203.0.113.2'']"
    by (simp add: two_records_store_def)
  have b: "mutations (trace (snd (updateRecord (store_api []) ''token'' ''zone1'' ''example.com''
          ''203.0.113.2'' (start two_records_store))))
     = [UpdateDNSRecord_call ''token'' ''zone1'' ''rec1'' ''A'' ''example.com''
          ''203.0.113.2'' 1 None]"
    by (simp add: two_records_store_def updateRecord_def api_call_def store_defs start_def
        emit_def mutations_def is_mutation_def)
  have f: "remote failed_sync = example_store [] \<and> clock failed_sync = 11 * Second
      \<and> mutations (trace failed_sync) = []"
    by (simp add: failed_sync_def record_fails_def sync_defs initialBackoff_def maxBackoff_def
        backoff_wait_def Second_def mutations_def is_mutation_def)
  have r: "mutations (trace (snd (UpdateIP (store_api [])
        (example_updater [example_account [''@'']] True) ''203.0.113.2'' s)))
     = mutations (trace s) @
       [UpdateDNSRecord_call ''0123456789abcdefghij'' ''zone1'' ''rec1'' ''A'' ''example.com''
          ''203.0.113.2'' 1 (Some True)]"
    if "remote s = example_store []" for s
    using that
    by (simp add: sync_defs initialBackoff_def mutations_def is_mutation_def)
  have c: "mutations (trace retried_sync)
     = [UpdateDNSRecord_call ''0123456789abcdefghij'' ''zone1'' ''rec1'' ''A'' ''example.com''
          ''203.0.113.2'' 1 (Some True)]"
    unfolding retried_sync_def using r [of failed_sync] f by simp
  show ?thesis using a b c f by simp
qed

text \<open>
  Claim C4, as amended. When the first A record that the remote lookup returns already
  carries the target address, \<open>updateRecord\<close> returns success and its only remote call
  is the lookup: no create or update call is issued. Hence, on the store, when every
  configured record name has a first A record that carries the address, a synchronisation
  with that address (whatever faults it meets) makes no mutating call and leaves the
  records as they are. The store is in that state after a synchronisation that met no
  fault, and after a synchronisation that logged no failed zone and no failed record,
  whatever transient faults it met.
\<close>

theorem reconcile_idempotent:
  "(ListDNSRecords cf api zoneID domain ''A'' (remote s) = ((Inr (r # rs), dt), w')
      \<and> Content r = ip \<longrightarrow>
      updateRecord cf api zoneID domain ip s
        = (None, s\<lparr>remote := w', clock := clock s + dt,
                    trace := trace s @ [ListDNSRecords_call api zoneID domain ''A'',
                                        Log (LogUnchanged domain ip)]\<rparr>))
   \<and> (settled ip rej (CloudflareAccounts (Config c)) (remote s1)
      \<and> s2 = snd (UpdateIP (store_api rej) c ip (with_faults fs s1)) \<longrightarrow>
      mutations (trace s2) = mutations (trace s1) \<and> dns (remote s2) = dns (remote s1))
   \<and> (faults (remote s0) = [] \<and> s1 = snd (UpdateIP (store_api rej) c ip s0) \<longrightarrow>
      settled ip rej (CloudflareAccounts (Config c)) (remote s1))
   \<and> (failures (trace s1) = failures (trace s0)
      \<and> s1 = snd (UpdateIP (store_api rej) c ip s0) \<longrightarrow>
      settled ip rej (CloudflareAccounts (Config c)) (remote s1))"
proof -
  let ?accounts = "CloudflareAccounts (Config c)"
  have a: "updateRecord cf api zoneID domain ip s
        = (None, s\<lparr>remote := w', clock := clock s + dt,
                    trace := trace s @ [ListDNSRecords_call api zoneID domain ''A'',
                                        Log (LogUnchanged domain ip)]\<rparr>)"
    if "ListDNSRecords cf api zoneID domain ''A'' (remote s) = ((Inr (r # rs), dt), w')"
      "Content r = ip"
    using that by (simp add: updateRecord_def api_call_def emit_def)
  have b: "mutations (trace s2) = mutations (trace s1) \<and> dns (remote s2) = dns (remote s1)"
    if st: "settled ip rej ?accounts (remote s1)"
      and s2: "s2 = snd (UpdateIP (store_api rej) c ip (with_faults fs s1))"
  proof -
    let ?zs = "zone_ids (remote s1)"
    have "unchanged (dns (remote s1)) ?zs (mutations (trace s1)) (with_faults fs s1)"
      by (simp add: unchanged_def with_faults_def)
    moreover have "\<forall>account \<in> set ?accounts. \<forall>k \<in> account_keys rej ?zs account.
        head_is ip (dns (remote s1)) k"
      using st by (simp add: settled_def)
    ultimately have "unchanged (dns (remote s1)) ?zs (mutations (trace s1)) s2"
      unfolding s2 UpdateIP_def snd_conv by (rule unchanged_update_accounts)
    then show ?thesis by (simp add: unchanged_def)
  qed
  have c: "settled ip rej ?accounts (remote s1)"
    if f: "faults (remote s0) = []" and s1: "s1 = snd (UpdateIP (store_api rej) c ip s0)"
  proof -
    let ?zs = "zone_ids (remote s0)"
    have "reconciled ip ?zs {} s0" using f by (simp add: reconciled_def)
    from reconciled_update_accounts [OF this, where accounts = ?accounts and rej = rej
        and db = "DB_present c"]
    have "reconciled ip ?zs (\<Union>account \<in> set ?accounts. account_keys rej ?zs account) s1"
      using s1 by (simp add: UpdateIP_def)
    then show ?thesis by (rule reconciled_settled)
  qed
  have d: "settled ip rej ?accounts (remote s1)"
    if "failures (trace s1) = failures (trace s0)"
      and "s1 = snd (UpdateIP (store_api rej) c ip s0)"
    using that(2,1) by (rule UpdateIP_settles)
  show ?thesis using a b c d by blast
qed

theorem reconcile_idempotent_witness:
  "updateRecord (store_api []) ''token'' ''zone1'' ''example.com'' ''203.0.113.1''
       (start (example_store []))
     = (None, \<lparr>remote = example_store [], clock = 0,
                trace = [ListDNSRecords_call ''token'' ''zone1'' ''example.com'' ''A'',
                         Log (LogUnchanged ''example.com'' ''203.0.113.1'')]\<rparr>)
   \<and> faults (remote (start (example_store []))) = []
   \<and> settled ''203.0.113.2'' [] [example_account [''@'', ''www'']] (remote first_sync)
   \<and> mutations (trace first_sync)
       = [UpdateDNSRecord_call ''0123456789abcdefghij'' ''zone1'' ''rec1'' ''A'' ''example.com''
            ''203.0.113.2'' 1 (Some True),
          CreateDNSRecord_call ''0123456789abcdefghij'' ''zone1'' ''A'' ''www.example.com''
            ''203.0.113.2'' 1 (Some False)]
   \<and> mutations (trace second_sync) = mutations (trace first_sync)
   \<and> dns (remote second_sync) = dns (remote first_sync)
   \<and> failures (trace transient_sync) = failures (trace (start (example_store fails_twice)))
   \<and> backoffs (trace transient_sync) = [1 * Second, 2 * Second]
   \<and> settled ''203.0.113.2'' [] [example_account [''@'']] (remote transient_sync)
   \<and> mutations (trace repeated_sync) = mutations (trace transient_sync)
   \<and> dns (remote repeated_sync) = dns (remote transient_sync)"
proof -
  have l: "ListDNSRecords (store_api []) ''token'' ''zone1'' ''example.com'' ''A''
        (remote (start (example_store [])))
      = ((Inr (\<lparr>ID = ''rec1'', Content = ''203.0.113.1'', Proxied = Some True\<rparr> # []), 0),
         example_store [])"
    by (simp add: store_defs start_def example_store_def)
  have f: "faults (remote (start (example_store []))) = []"
    by (simp add: start_def example_store_def)
  note th = reconcile_idempotent [of "store_api []" "''token''" "''zone1''" "''example.com''"
      "start (example_store [])" "\<lparr>ID = ''rec1'', Content = ''203.0.113.1'', Proxied = Some True\<rparr>"
      "[]" 0 "example_store []" "''203.0.113.1''", THEN conjunct1]
  from th l have a: "updateRecord (store_api []) ''token'' ''zone1'' ''example.com'' ''203.0.113.1''
       (start (example_store []))
     = (None, \<lparr>remote = example_store [], clock = 0,
                trace = [ListDNSRecords_call ''token'' ''zone1'' ''example.com'' ''A'',
                         Log (LogUnchanged ''example.com'' ''203.0.113.1'')]\<rparr>)"
    by (simp add: start_def)
  note th3 = reconcile_idempotent [where ?s0.0 = "start (example_store [])"
      and ?s1.0 = first_sync and rej = "[]"
      and c = "example_updater [example_account [''@'', ''www'']] True"
      and ip = "''203.0.113.2''", THEN conjunct2, THEN conjunct2, THEN conjunct1]
  from th3 f have b: "settled ''203.0.113.2'' [] [example_account [''@'', ''www'']] (remote first_sync)"
    by (simp add: first_sync_def example_updater_def)
  note th2 = reconcile_idempotent [where ?s1.0 = first_sync and ?s2.0 = second_sync
      and rej = "[]" and c = "example_updater [example_account [''@'', ''www'']] True"
      and ip = "''203.0.113.2''" and fs = "[(Second, Some ''HTTP 502'')]",
      THEN conjunct2, THEN conjunct1]
  from th2 b have c: "mutations (trace second_sync) = mutations (trace first_sync)
      \<and> dns (remote second_sync) = dns (remote first_sync)"
    by (simp add: second_sync_def example_updater_def)
  have d: "mutations (trace first_sync)
       = [UpdateDNSRecord_call ''0123456789abcdefghij'' ''zone1'' ''rec1'' ''A'' ''example.com''
            ''203.0.113.2'' 1 (Some True),
          CreateDNSRecord_call ''0123456789abcdefghij'' ''zone1'' ''A'' ''www.example.com''
            ''203.0.113.2'' 1 (Some False)]"
    by (simp add: first_sync_def sync_defs mutations_def is_mutation_def)
  have t: "failures (trace transient_sync) = []
      \<and> backoffs (trace transient_sync) = [1 * Second, 2 * Second]"
    by (simp add: transient_sync_def fails_twice_def sync_defs initialBackoff_def maxBackoff_def
        backoff_wait_def Second_def failures_def is_failure_def)
  have t0: "failures (trace (start (example_store fails_twice))) = []"
    by (simp add: start_def failures_def)
  note th4 = reconcile_idempotent [where ?s0.0 = "start (example_store fails_twice)"
      and ?s1.0 = transient_sync and rej = "[]"
      and c = "example_updater [example_account [''@'']] True"
      and ip = "''203.0.113.2''", THEN conjunct2, THEN conjunct2, THEN conjunct2]
  from th4 t t0 have e: "settled ''203.0.113.2'' [] [example_account [''@'']] (remote transient_sync)"
    by (simp add: transient_sync_def example_updater_def)
  note th5 = reconcile_idempotent [where ?s1.0 = transient_sync and ?s2.0 = repeated_sync
      and rej = "[]" and c = "example_updater [example_account [''@'']] True"
      and ip = "''203.0.113.2''" and fs = "[]", THEN conjunct2, THEN conjunct1]
  from th5 e have g: "mutations (trace repeated_sync) = mutations (trace transient_sync)
      \<and> dns (remote repeated_sync) = dns (remote transient_sync)"
    by (simp add: repeated_sync_def example_updater_def)
  show ?thesis using a b c d e f g t t0 by simp
qed

lemma skips_recorded_snoc:
  "skips_recorded evs \<Longrightarrow> \<not> is_skip e \<Longrightarrow> skips_recorded (evs @ [e])"
  by (induction evs rule: skips_recorded.induct) (auto simp: records_skip_def is_skip_def split: event.splits log_line.splits)

lemma skips_recorded_snoc_skip:
  "skips_recorded evs \<Longrightarrow>
   skips_recorded (evs @ [Log (LogUnchanged d ip), AddDNSUpdate acc ip ''A'' d True []])"
  by (induction evs rule: skips_recorded.induct) (auto simp: records_skip_def is_skip_def split: event.splits log_line.splits)

lemma skips_pause:
  "skips_recorded (trace s) \<Longrightarrow> \<not> is_skip (Log line) \<Longrightarrow>
   retry_pause line dl a b s = (p, s1) \<Longrightarrow> skips_recorded (trace s1)"
  by (auto simp: retry_pause_def backoff_wait_def emit_def is_skip_def
      intro!: skips_recorded_snoc [of "_ @ [_]", simplified] skips_recorded_snoc split: if_splits)

lemma skips_pause_record:
  "skips_recorded (trace s) \<Longrightarrow>
   retry_pause (LogRetryRecord d a m) dl a b s = (p, s1) \<Longrightarrow> skips_recorded (trace s1)"
  by (rule skips_pause) (simp_all add: is_skip_def)

lemma skips_pause_zone:
  "skips_recorded (trace s) \<Longrightarrow>
   retry_pause (LogRetryZoneID acc zn a m) dl a b s = (p, s1) \<Longrightarrow> skips_recorded (trace s1)"
  by (rule skips_pause) (simp_all add: is_skip_def)

lemma skips_emit:
  "skips_recorded (trace s) \<Longrightarrow> \<not> is_skip e \<Longrightarrow> skips_recorded (trace (emit e s))"
  by (simp add: emit_def skips_recorded_snoc)

lemma skips_api_call:
  "skips_recorded (trace s) \<Longrightarrow> \<not> is_skip e \<Longrightarrow> api_call e f s = (r, s') \<Longrightarrow>
   skips_recorded (trace s')"
  by (auto simp: api_call_def skips_recorded_snoc split: prod.splits)

lemma skips_updateRecord:
  assumes "skips_recorded (trace s)" "updateRecord cf api z d ip s = (r, s')"
  shows "case r of None \<Rightarrow> skip_pending d ip (trace s') | Some e \<Rightarrow> skips_recorded (trace s')"
proof -
  obtain l s1 where l: "api_call (ListDNSRecords_call api z d ''A'') (ListDNSRecords cf api z d ''A'') s = (l, s1)"
    by (cases "api_call (ListDNSRecords_call api z d ''A'') (ListDNSRecords cf api z d ''A'') s")
  have s1: "skips_recorded (trace s1)"
    using skips_api_call [OF assms(1) _ l] by (simp add: is_skip_def)
  show ?thesis
  proof (cases l)
    case (Inl err)
    then show ?thesis using assms(2) l s1 by (auto simp: updateRecord_def)
  next
    case (Inr records)
    show ?thesis
    proof (cases records)
      case Nil
      obtain c s2 where c: "api_call (CreateDNSRecord_call api z ''A'' d ip 1 (Some False))
          (CreateDNSRecord cf api z ''A'' d ip 1 (Some False)) s1 = (c, s2)"
        by (cases "api_call (CreateDNSRecord_call api z ''A'' d ip 1 (Some False))
          (CreateDNSRecord cf api z ''A'' d ip 1 (Some False)) s1")
      have s2: "skips_recorded (trace s2)"
        using skips_api_call [OF s1 _ c] by (simp add: is_skip_def)
      then have "skips_recorded (trace (emit (Log (LogCreated d ip)) s2))"
        by (rule skips_emit) (simp add: is_skip_def)
      then show ?thesis using assms(2) l Inr Nil c s2
        by (cases c) (auto simp: updateRecord_def skip_pending_def)
    next
      case (Cons rcd rest)
      show ?thesis
      proof (cases "Content rcd = ip")
        case True
        then have "r = None" "s' = emit (Log (LogUnchanged d ip)) s1"
          using assms(2) l Inr Cons by (auto simp: updateRecord_def)
        then show ?thesis using s1 by (simp add: skip_pending_def emit_def)
      next
        case False
        obtain c s2 where c: "api_call
            (UpdateDNSRecord_call api z (ID rcd) ''A'' d ip 1 (Proxied rcd))
            (UpdateDNSRecord cf api z (ID rcd) ''A'' d ip 1 (Proxied rcd)) s1 = (c, s2)"
          by (cases "api_call
            (UpdateDNSRecord_call api z (ID rcd) ''A'' d ip 1 (Proxied rcd))
            (UpdateDNSRecord cf api z (ID rcd) ''A'' d ip 1 (Proxied rcd)) s1")
        have s2: "skips_recorded (trace s2)"
          using skips_api_call [OF s1 _ c] by (simp add: is_skip_def)
        then have "skips_recorded (trace (emit (Log (LogUpdated d ip)) s2))"
          by (rule skips_emit) (simp add: is_skip_def)
        then show ?thesis using assms(2) l Inr Cons False c s2
          by (cases c) (auto simp: updateRecord_def skip_pending_def)
      qed
    qed
  qed
qed

lemma skips_updateRecordWithRetry:
  assumes "skips_recorded (trace s)"
    "updateRecordWithRetry cf api dl z d ip acc s = (r, s')"
  shows "case r of None \<Rightarrow> skip_pending d ip (trace s') | Some e \<Rightarrow> skips_recorded (trace s')"
  using assms(2) unfolding updateRecordWithRetry_def
  by (rule updateRecordWithRetry_loop_rule [rotated 3, where I = "\<lambda>s. skips_recorded (trace s)"])
     (auto intro: skips_pause_record skips_updateRecord assms)

lemma skip_pending_recorded:
  "skip_pending d ip (trace s) \<Longrightarrow>
   skips_recorded (trace (emit (AddDNSUpdate acc ip ''A'' d True []) s))"
proof -
  assume "skip_pending d ip (trace s)"
  then consider "skips_recorded (trace s)"
    | "trace s \<noteq> []" "last (trace s) = Log (LogUnchanged d ip)" "skips_recorded (butlast (trace s))"
    by (auto simp: skip_pending_def)
  then show ?thesis
  proof cases
    case 1
    then show ?thesis by (simp add: skips_emit is_skip_def)
  next
    case 2
    have "trace s = butlast (trace s) @ [Log (LogUnchanged d ip)]"
      using 2(1,2) by (metis append_butlast_last_id)
    then have "trace (emit (AddDNSUpdate acc ip ''A'' d True []) s)
        = butlast (trace s) @ [Log (LogUnchanged d ip), AddDNSUpdate acc ip ''A'' d True []]"
      by (simp add: emit_def)
    then show ?thesis using skips_recorded_snoc_skip [OF 2(3)] by simp
  qed
qed

lemma skips_update_records:
  "skips_recorded (trace s) \<Longrightarrow>
   skips_recorded (trace (update_records cf True api dl zoneID zn acc ip records s))"
proof (induction records arbitrary: s)
  case Nil
  then show ?case by simp
next
  case (Cons rcd rest)
  obtain r s1 where u: "updateRecordWithRetry cf api dl zoneID (fullDomain rcd zn) ip acc s = (r, s1)"
    by (cases "updateRecordWithRetry cf api dl zoneID (fullDomain rcd zn) ip acc s")
  note uu = skips_updateRecordWithRetry [OF Cons.prems u]
  show ?case
  proof (cases r)
    case None
    then have "skips_recorded (trace (AddDNSUpdate_if True
        (AddDNSUpdate acc ip ''A'' (fullDomain rcd zn) True []) s1))"
      using uu by (simp add: AddDNSUpdate_if_def skip_pending_recorded)
    from Cons.IH [OF this] show ?thesis using u None by simp
  next
    case (Some err)
    then have "skips_recorded (trace (emit (Log (LogRecordFailed (fullDomain rcd zn) err))
        (AddDNSUpdate_if True (AddDNSUpdate acc ip ''A'' (fullDomain rcd zn) False err) s1)))"
      using uu by (simp add: AddDNSUpdate_if_def skips_emit is_skip_def)
    from Cons.IH [OF this] show ?thesis using u Some by simp
  qed
qed

lemma skips_getZoneIDWithRetry:
  assumes "skips_recorded (trace s)" "getZoneIDWithRetry cf api dl zn acc s = (r, s')"
  shows "skips_recorded (trace s')"
proof -
  have "case r of Inr zoneID \<Rightarrow> skips_recorded (trace s') | Inl e \<Rightarrow> skips_recorded (trace s')"
    using assms(2) unfolding getZoneIDWithRetry_def
    by (rule getZoneIDWithRetry_loop_rule [rotated 3, where I = "\<lambda>s. skips_recorded (trace s)"])
       (auto intro: skips_pause_zone assms dest: skips_api_call [rotated 2] simp: is_skip_def split: sum.splits)
  then show ?thesis by (cases r) auto
qed

lemma skips_update_zone:
  "skips_recorded (trace s) \<Longrightarrow>
   skips_recorded (trace (update_zone cf True api acc ip zone s))"
  by (auto simp: update_zone_def Let_def is_skip_def split: prod.splits sum.splits
      dest: skips_getZoneIDWithRetry intro: skips_emit skips_update_records)

lemma skips_update_zones:
  "skips_recorded (trace s) \<Longrightarrow>
   skips_recorded (trace (update_zones cf True api acc ip zones s))"
  by (induction zones arbitrary: s) (auto intro: skips_update_zone)

lemma skips_update_accounts:
  "skips_recorded (trace s) \<Longrightarrow>
   skips_recorded (trace (update_accounts cf True ip accounts s))"
proof (induction accounts arbitrary: s)
  case Nil
  then show ?case by simp
next
  case (Cons account rest)
  have e: "skips_recorded (trace (emit (Log l) s))" if "\<not> is_skip (Log l)" for l
    using Cons.prems that by (rule skips_emit)
  show ?case
  proof (cases "NewWithAPIToken cf (APIToken account)")
    case None
    have "skips_recorded (trace (update_zones cf True (APIToken account) (Name account) ip
        (Zones account) (emit (Log (LogDebugToken (Name account)
          (tokenPrefix (APIToken account)) (length (APIToken account)))) s)))"
      by (rule skips_update_zones) (simp add: e is_skip_def)
    from Cons.IH [OF this] Cons.IH [OF Cons.prems] show ?thesis using None by simp
  next
    case (Some err)
    have "skips_recorded (trace (emit (Log (LogClientFailed (Name account) err)) s))"
      by (simp add: e is_skip_def)
    from Cons.IH [OF this] Cons.IH [OF Cons.prems] show ?thesis using Some by simp
  qed
qed

text \<open>
  The claim C5 as stated fails: the record of the example already carries the address,
  it is skipped, and a success row for it is handed to \<open>AddDNSUpdate\<close>.
\<close>

theorem skipped_record_counterexample:
  "trace (matching_sync True)
     = [Log (LogDebugToken ''home'' ''0123...'' 20),
        ZoneIDByName_call ''0123456789abcdefghij'' ''example.com'',
        ListDNSRecords_call ''0123456789abcdefghij'' ''zone1'' ''example.com'' ''A'',
        Log (LogUnchanged ''example.com'' ''203.0.113.1''),
        AddDNSUpdate ''home'' ''203.0.113.1'' ''A'' ''example.com'' True []]"
  by (simp add: matching_sync_def sync_defs)

text \<open>
  Claim C5, as amended. When a record is skipped because the first record of its lookup
  already carries the address, the loop over the records hands one success row with an
  empty error for that record to \<open>AddDNSUpdate\<close>, provided a database is attached,
  and no failure row, and goes on with the next record. In every run of \<open>UpdateIP\<close>
  with a database attached each skip, at whatever attempt, is followed at once by its
  success row.
\<close>

theorem skipped_record_outcome:
  "(ListDNSRecords cf api zoneID (fullDomain rcd zoneName) ''A'' (remote s)
        = ((Inr (r # rs), dt), w')
      \<and> Content r = newIP \<longrightarrow>
      update_records cf db api deadline zoneID zoneName accountName newIP (rcd # rest) s
        = update_records cf db api deadline zoneID zoneName accountName newIP rest
            (AddDNSUpdate_if db
               (AddDNSUpdate accountName newIP ''A'' (fullDomain rcd zoneName) True [])
               (s\<lparr>remote := w', clock := clock s + dt,
                   trace := trace s @
                     [ListDNSRecords_call api zoneID (fullDomain rcd zoneName) ''A'',
                      Log (LogUnchanged (fullDomain rcd zoneName) newIP)]\<rparr>)))
   \<and> (DB_present c \<and> skips_recorded (trace s) \<longrightarrow>
        skips_recorded (trace (snd (UpdateIP cf c newIP s))))"
proof -
  have a: "update_records cf db api deadline zoneID zoneName accountName newIP (rcd # rest) s
        = update_records cf db api deadline zoneID zoneName accountName newIP rest
            (AddDNSUpdate_if db
               (AddDNSUpdate accountName newIP ''A'' (fullDomain rcd zoneName) True [])
               (s\<lparr>remote := w', clock := clock s + dt,
                   trace := trace s @
                     [ListDNSRecords_call api zoneID (fullDomain rcd zoneName) ''A'',
                      Log (LogUnchanged (fullDomain rcd zoneName) newIP)]\<rparr>))"
    if l: "ListDNSRecords cf api zoneID (fullDomain rcd zoneName) ''A'' (remote s)
        = ((Inr (r # rs), dt), w')" and c: "Content r = newIP"
  proof -
    have u: "updateRecord cf api zoneID (fullDomain rcd zoneName) newIP s
        = (None, s\<lparr>remote := w', clock := clock s + dt,
                   trace := trace s @
                     [ListDNSRecords_call api zoneID (fullDomain rcd zoneName) ''A'',
                      Log (LogUnchanged (fullDomain rcd zoneName) newIP)]\<rparr>)"
      using l c by (simp add: updateRecord_def api_call_def emit_def)
    have "updateRecordWithRetry cf api deadline zoneID (fullDomain rcd zoneName) newIP accountName s
        = (None, s\<lparr>remote := w', clock := clock s + dt,
                   trace := trace s @
                     [ListDNSRecords_call api zoneID (fullDomain rcd zoneName) ''A'',
                      Log (LogUnchanged (fullDomain rcd zoneName) newIP)]\<rparr>)"
      unfolding updateRecordWithRetry_def
      by (subst updateRecordWithRetry_loop.simps) (simp add: retry_pause_def u)
    then show ?thesis by simp
  qed
  have b: "skips_recorded (trace (snd (UpdateIP cf c newIP s)))"
    if "DB_present c" "skips_recorded (trace s)"
    using that by (simp add: UpdateIP_def skips_update_accounts)
  show ?thesis using a b by blast
qed

theorem skipped_record_outcome_witness:
  "update_records (store_api []) True ''token'' (60 * Second) ''zone1'' ''example.com'' ''home''
       ''203.0.113.1'' [''@''] (start (example_store []))
     = \<lparr>remote = example_store [], clock = 0,
        trace = [ListDNSRecords_call ''token'' ''zone1'' ''example.com'' ''A'',
                 Log (LogUnchanged ''example.com'' ''203.0.113.1''),
                 AddDNSUpdate ''home'' ''203.0.113.1'' ''A'' ''example.com'' True []]\<rparr>
   \<and> DB_present (example_updater [example_account [''@'']] True)
   \<and> skips_recorded (trace (start (example_store [])))
   \<and> skips_recorded (trace (matching_sync True))
   \<and> Log (LogUnchanged ''example.com'' ''203.0.113.1'') \<in> set (trace (matching_sync True))"
proof -
  have l: "ListDNSRecords (store_api []) ''token'' ''zone1'' (fullDomain ''@'' ''example.com'') ''A''
        (remote (start (example_store [])))
      = ((Inr (\<lparr>ID = ''rec1'', Content = ''203.0.113.1'', Proxied = Some True\<rparr> # []), 0),
         example_store [])"
    by (simp add: store_defs start_def example_store_def fullDomain_def)
  have d: "DB_present (example_updater [example_account [''@'']] True)"
    by (simp add: example_updater_def)
  have e: "skips_recorded (trace (start (example_store [])))" by (simp add: start_def)
  note th = skipped_record_outcome [of "store_api []" "''token''" "''zone1''" "''@''"
      "''example.com''" "start (example_store [])"
      "\<lparr>ID = ''rec1'', Content = ''203.0.113.1'', Proxied = Some True\<rparr>" "[]" 0
      "example_store []" "''203.0.113.1''" True "60 * Second" "''home''" "[]"
      "example_updater [example_account [''@'']] True"]
  from th l have a: "update_records (store_api []) True ''token'' (60 * Second) ''zone1''
       ''example.com'' ''home'' ''203.0.113.1'' [''@''] (start (example_store []))
     = \<lparr>remote = example_store [], clock = 0,
        trace = [ListDNSRecords_call ''token'' ''zone1'' ''example.com'' ''A'',
                 Log (LogUnchanged ''example.com'' ''203.0.113.1''),
                 AddDNSUpdate ''home'' ''203.0.113.1'' ''A'' ''example.com'' True []]\<rparr>"
    by (simp add: start_def fullDomain_def AddDNSUpdate_if_def emit_def)
  from th d e have b: "skips_recorded (trace (matching_sync True))"
    by (simp add: matching_sync_def)
  have c: "Log (LogUnchanged ''example.com'' ''203.0.113.1'') \<in> set (trace (matching_sync True))"
    by (simp add: matching_sync_def sync_defs)
  show ?thesis using a b c d e by simp
qed

section \<open>The check interval\<close>

lemma minInterval_loop_char:
  "minInterval_loop ps m = (if list_ex fast_kind ps then 1 * Second else m)"
  by (induction ps) (auto simp: fast_kind_def)

text \<open>
  Claim C7. When the configured interval is not empty and \<open>time.ParseDuration\<close> reads
  it, the interval of the cycle is the maximum of the configured interval and the
  minimum interval: one second when some enabled provider is of kind \<open>router_ssh\<close> or
  \<open>interface\<close>, thirty seconds otherwise. When the configured interval is empty or
  \<open>time.ParseDuration\<close> rejects it, the interval is five minutes whatever was
  configured. A cycle whose discovery succeeds waits for this interval.
\<close>

theorem checkInterval_effective:
  "(IPCheck (Intervals cfg) \<noteq> [] \<and> ParseDuration (IPCheck (Intervals cfg)) = Some d \<longrightarrow>
      checkInterval ParseDuration cfg
        = max d (if list_ex fast_kind (IPProviders cfg) then 1 * Second else 30 * Second))
   \<and> (IPCheck (Intervals cfg) = [] \<or> ParseDuration (IPCheck (Intervals cfg)) = None \<longrightarrow>
      checkInterval ParseDuration cfg = 5 * Minute)
   \<and> (fst (monitor_cycle ParseDuration update cfg now (currentIP, source, None) history_err m)
        = WaitInterval (checkInterval ParseDuration cfg))"
  by (auto simp: checkInterval_def minInterval_loop_char monitor_cycle_def Let_def
      split: option.splits prod.splits)

theorem checkInterval_effective_witness:
  "checkInterval parse_example (interval_cfg ''5s'' [stun_cfg True]) = 30 * Second
   \<and> checkInterval parse_example (interval_cfg ''5s'' [stun_cfg True, router_cfg]) = 5 * Second
   \<and> checkInterval parse_example (interval_cfg ''1d'' [stun_cfg True]) = 5 * Minute
   \<and> parse_example ''1d'' = None"
proof -
  have a: "IPCheck (Intervals (interval_cfg ''5s'' ps)) \<noteq> []
      \<and> parse_example (IPCheck (Intervals (interval_cfg ''5s'' ps))) = Some (5 * Second)" for ps
    by (simp add: interval_cfg_def parse_example_def)
  have b: "parse_example (IPCheck (Intervals (interval_cfg ''1d'' ps))) = None" for ps
    by (simp add: interval_cfg_def parse_example_def)
  have c: "\<not> list_ex fast_kind (IPProviders (interval_cfg ''5s'' [stun_cfg True]))"
    "list_ex fast_kind (IPProviders (interval_cfg ''5s'' [stun_cfg True, router_cfg]))"
    by (simp_all add: interval_cfg_def fast_kind_def stun_cfg_def router_cfg_def)
  note t1 = checkInterval_effective [of "interval_cfg ''5s'' [stun_cfg True]" parse_example
      "5 * Second", THEN conjunct1, rule_format, OF a]
  note t2 = checkInterval_effective [of "interval_cfg ''5s'' [stun_cfg True, router_cfg]"
      parse_example "5 * Second", THEN conjunct1, rule_format, OF a]
  note t3 = checkInterval_effective [of "interval_cfg ''1d'' [stun_cfg True]" parse_example,
      THEN conjunct2, THEN conjunct1, rule_format, OF disjI2, OF b]
  show ?thesis using t1 t2 t3 c b [of "[]"]
    by (simp add: Second_def interval_cfg_def)
qed

section \<open>Properties of the event hub\<close>

lemma broadcast_loop_dispatched:
  "distinct cs \<Longrightarrow> \<forall>c \<in> set cs. \<not> closed (sends h c) \<Longrightarrow>
   broadcast_loop message cs h = Done (dispatched message cs h)"
proof (induction cs arbitrary: h)
  case Nil
  then show ?case by (simp add: dispatched_def)
next
  case (Cons c cs)
  have open_c: "\<not> closed (sends h c)" and notin: "c \<notin> set cs" and d: "distinct cs"
    using Cons.prems by auto
  show ?case
  proof (cases "full (sends h c)")
    case False
    let ?h = "h\<lparr>sends := (sends h)(c := (sends h c)\<lparr>buf := buf (sends h c) @ [message]\<rparr>)\<rparr>"
    have step: "broadcast_loop message (c # cs) h = broadcast_loop message cs ?h"
      using False open_c by (simp add: chan_send_def full_def)
    have "\<forall>x \<in> set cs. \<not> closed (sends ?h x)" using Cons.prems notin by auto
    from Cons.IH [OF d this] have "broadcast_loop message cs ?h = Done (dispatched message cs ?h)" .
    moreover have "dispatched message cs ?h = dispatched message (c # cs) h"
    proof (rule Hub.equality)
      show "sends (dispatched message cs ?h) = sends (dispatched message (c # cs) h)"
        using False notin by (auto simp: dispatched_def deliver_def fun_eq_iff)
      show "clients (dispatched message cs ?h) = clients (dispatched message (c # cs) h)"
        using False notin by (auto simp: dispatched_def intro!: filter_cong)
    qed (simp_all add: dispatched_def)
    ultimately show ?thesis using step by simp
  next
    case True
    let ?h = "h\<lparr>sends := (sends h)(c := (sends h c)\<lparr>closed := True\<rparr>),
                 clients := removeAll c (clients h)\<rparr>"
    have step: "broadcast_loop message (c # cs) h = broadcast_loop message cs ?h"
      using True open_c by (simp add: chan_send_def chan_close_def full_def)
    have "\<forall>x \<in> set cs. \<not> closed (sends ?h x)" using Cons.prems notin by auto
    from Cons.IH [OF d this] have "broadcast_loop message cs ?h = Done (dispatched message cs ?h)" .
    moreover have "dispatched message cs ?h = dispatched message (c # cs) h"
    proof (rule Hub.equality)
      show "sends (dispatched message cs ?h) = sends (dispatched message (c # cs) h)"
        using True notin by (auto simp: dispatched_def deliver_def fun_eq_iff)
      have "filter (\<lambda>x. \<not> (x \<in> set cs \<and> full (sends ?h x))) (removeAll c (clients h))
          = filter (\<lambda>x. \<not> (x \<in> set (c # cs) \<and> full (sends h x))) (clients h)"
        using True notin unfolding removeAll_filter_not_eq filter_filter
        by (intro filter_cong) auto
      then show "clients (dispatched message cs ?h) = clients (dispatched message (c # cs) h)"
        by (simp add: dispatched_def)
    qed (simp_all add: dispatched_def)
    ultimately show ?thesis using step by simp
  qed
qed

text \<open>
  Claim C9. On a well-formed hub the dispatch of a message is done and leaves the hub
  well formed: every subscriber whose queue is full is removed from the registry and its
  channel is closed, and every other subscriber stays registered with the message
  appended to its queue. \<open>Hub.Broadcast\<close> is done in every case: it hands the
  message over when the loop of the hub is ready to receive and drops it otherwise; it
  never blocks.
\<close>

theorem broadcast_isolates_full_subscriber:
  "hub_ok h \<longrightarrow>
     Run_step (Message message) h = Done (dispatched message (clients h) h)
     \<and> hub_ok (dispatched message (clients h) h)
     \<and> (\<forall>c \<in> set (clients h).
          if full (sends h c)
          then c \<notin> set (clients (dispatched message (clients h) h))
               \<and> closed (sends (dispatched message (clients h) h) c)
          else c \<in> set (clients (dispatched message (clients h) h))
               \<and> buf (sends (dispatched message (clients h) h) c) = buf (sends h c) @ [message]
               \<and> \<not> closed (sends (dispatched message (clients h) h) c))
     \<and> (\<exists>r. Broadcast running msgType data h = Done r)
     \<and> Broadcast True msgType data h = Done (Some \<lparr>msg_Type = msgType, msg_Data = data\<rparr>)
     \<and> Broadcast False msgType data h = Done None"
proof
  assume ok: "hub_ok h"
  then have d: "distinct (clients h)" and o: "\<forall>c \<in> set (clients h). \<not> closed (sends h c)"
    by (auto simp: hub_ok_def)
  have a: "Run_step (Message message) h = Done (dispatched message (clients h) h)"
    using broadcast_loop_dispatched [OF d o] by simp
  have b: "hub_ok (dispatched message (clients h) h)"
    using ok by (auto simp: hub_ok_def dispatched_def deliver_def)
  have c: "\<forall>c \<in> set (clients h).
          if full (sends h c)
          then c \<notin> set (clients (dispatched message (clients h) h))
               \<and> closed (sends (dispatched message (clients h) h) c)
          else c \<in> set (clients (dispatched message (clients h) h))
               \<and> buf (sends (dispatched message (clients h) h) c) = buf (sends h c) @ [message]
               \<and> \<not> closed (sends (dispatched message (clients h) h) c)"
    using o by (auto simp: dispatched_def deliver_def)
  have e: "Broadcast True msgType data h = Done (Some \<lparr>msg_Type = msgType, msg_Data = data\<rparr>)"
    "Broadcast False msgType data h = Done None"
    using ok by (simp_all add: Broadcast_def chan_send_def hub_ok_def)
  then have f: "\<exists>r. Broadcast running msgType data h = Done r" by (cases running) auto
  show "Run_step (Message message) h = Done (dispatched message (clients h) h)
     \<and> hub_ok (dispatched message (clients h) h)
     \<and> (\<forall>c \<in> set (clients h).
          if full (sends h c)
          then c \<notin> set (clients (dispatched message (clients h) h))
               \<and> closed (sends (dispatched message (clients h) h) c)
          else c \<in> set (clients (dispatched message (clients h) h))
               \<and> buf (sends (dispatched message (clients h) h) c) = buf (sends h c) @ [message]
               \<and> \<not> closed (sends (dispatched message (clients h) h) c))
     \<and> (\<exists>r. Broadcast running msgType data h = Done r)
     \<and> Broadcast True msgType data h = Done (Some \<lparr>msg_Type = msgType, msg_Data = data\<rparr>)
     \<and> Broadcast False msgType data h = Done None"
    using a b c e f by blast
qed

lemma hub_ok_Run_step:
  "hub_ok h \<Longrightarrow> Run_step (Register c) h = Done h' \<Longrightarrow> cap (sends h c) = 256 \<Longrightarrow>
   \<not> closed (sends h c) \<Longrightarrow> hub_ok h'"
  by (auto simp: hub_ok_def split: if_splits)

lemma hub_ok_Unregister:
  "hub_ok h \<Longrightarrow> \<exists>h'. Run_step (Unregister c) h = Done h' \<and> hub_ok h'"
  by (auto simp: hub_ok_def chan_close_def distinct_removeAll)

theorem broadcast_isolates_full_subscriber_witness:
  "hub_ok example_hub
   \<and> full (sends example_hub 1) \<and> \<not> full (sends example_hub 2)
   \<and> Run_step (Message ip_change) example_hub
       = Done (dispatched ip_change (clients example_hub) example_hub)
   \<and> clients (dispatched ip_change (clients example_hub) example_hub) = [2]
   \<and> closed (sends (dispatched ip_change (clients example_hub) example_hub) 1)
   \<and> buf (sends (dispatched ip_change (clients example_hub) example_hub) 2) = [ip_change]
   \<and> Broadcast False ''ip_change'' [] example_hub = Done None"
proof -
  have ok: "hub_ok example_hub"
    by (simp add: hub_ok_def example_hub_def make_chan_def)
  have f: "full (sends example_hub 1)" "\<not> full (sends example_hub 2)"
    by (simp_all add: full_def example_hub_def make_chan_def)
  have c: "clients (dispatched ip_change (clients example_hub) example_hub) = [2]"
    "buf (sends (dispatched ip_change (clients example_hub) example_hub) 2) = [ip_change]"
    using f by (simp_all add: dispatched_def deliver_def example_hub_def make_chan_def full_def)
  note th = broadcast_isolates_full_subscriber [of example_hub ip_change False "''ip_change''" "[]",
      THEN mp, OF ok]
  have m: "1 \<in> set (clients example_hub)" by (simp add: example_hub_def)
  from th have "if full (sends example_hub 1)
          then 1 \<notin> set (clients (dispatched ip_change (clients example_hub) example_hub))
               \<and> closed (sends (dispatched ip_change (clients example_hub) example_hub) 1)
          else 1 \<in> set (clients (dispatched ip_change (clients example_hub) example_hub))
               \<and> buf (sends (dispatched ip_change (clients example_hub) example_hub) 1)
                   = buf (sends example_hub 1) @ [ip_change]
               \<and> \<not> closed (sends (dispatched ip_change (clients example_hub) example_hub) 1)"
    using m by blast
  then have cl: "closed (sends (dispatched ip_change (clients example_hub) example_hub) 1)"
    using f by simp
  show ?thesis using th f c ok cl by simp
qed

section \<open>Properties of the scheduler\<close>

subsection \<open>The configuration signal\<close>

lemma single_slot_New: "single_slot (ConfigUpdateChan (New startTime))"
  by (simp add: single_slot_def New_def make_chan_def)

lemma monitor_cycle_chan:
  "ConfigUpdateChan (srv (snd (monitor_cycle ParseDuration update cfg now got history_err m)))
     = ConfigUpdateChan (srv m)"
proof -
  obtain currentIP source err where got: "got = (currentIP, source, err)" by (cases got) auto
  show ?thesis
    by (cases err; cases history_err; cases "update currentIP (sync m)";
        cases "fst (update currentIP (sync m))")
       (simp_all add: got monitor_cycle_def Let_def)
qed

lemma wait_interval_chan:
  "single_slot (ConfigUpdateChan (srv m)) \<Longrightarrow>
   single_slot (ConfigUpdateChan (srv (snd (wait_interval interval arrival m))))"
  by (auto simp: wait_interval_def single_slot_def split: list.splits option.splits)

lemma notify_single_slot:
  assumes "single_slot (ConfigUpdateChan s)"
  shows "(buf (ConfigUpdateChan s) = [] \<longrightarrow>
           notifyConfigUpdate waiting s
             = Done (s\<lparr>ConfigUpdateChan := (ConfigUpdateChan s)\<lparr>buf := [()]\<rparr>\<rparr>, True))
         \<and> (buf (ConfigUpdateChan s) \<noteq> [] \<longrightarrow> notifyConfigUpdate waiting s = Done (s, False))"
  using assms
  by (auto simp: notifyConfigUpdate_def chan_send_def single_slot_def)

lemma notify_chan:
  assumes "single_slot (ConfigUpdateChan s)"
  shows "\<exists>s' sent. notifyConfigUpdate waiting s = Done (s', sent)
           \<and> single_slot (ConfigUpdateChan s')"
proof (cases "buf (ConfigUpdateChan s) = []")
  case True
  then show ?thesis using notify_single_slot [OF assms, of waiting] assms
    by (auto simp: single_slot_def)
next
  case False
  then show ?thesis using notify_single_slot [OF assms, of waiting] assms by auto
qed

lemma run_step_single_slot:
  assumes "single_slot (ConfigUpdateChan (srv m))"
  shows "\<exists>m'. run_step ParseDuration update st m = Done m'
           \<and> single_slot (ConfigUpdateChan (srv m'))"
proof (cases st)
  case (Notify waiting)
  from notify_chan [OF assms, of waiting] obtain s' sent where
    "notifyConfigUpdate waiting (srv m) = Done (s', sent)" "single_slot (ConfigUpdateChan s')"
    by blast
  then show ?thesis using Notify by simp
next
  case (Cycle cfg now got history_err)
  then show ?thesis using assms by (simp add: monitor_cycle_chan)
next
  case (Wait interval arrival)
  then show ?thesis using assms by (simp add: wait_interval_chan)
qed

lemma run_steps_single_slot:
  "single_slot (ConfigUpdateChan (srv m)) \<Longrightarrow>
   \<exists>m'. run_steps ParseDuration update steps m = Done m'
      \<and> single_slot (ConfigUpdateChan (srv m'))"
proof (induction steps arbitrary: m)
  case Nil
  then show ?case by simp
next
  case (Cons st rest)
  from run_step_single_slot [OF Cons.prems, of ParseDuration update st] obtain m1 where
    m1: "run_step ParseDuration update st m = Done m1" "single_slot (ConfigUpdateChan (srv m1))"
    by blast
  from Cons.IH [OF m1(2)] show ?case using m1(1) by simp
qed

text \<open>
  Claim C8. A configuration signal sent at a time \<open>t\<close> before the interval has elapsed
  ends the wait at \<open>t\<close>, and a signal that is pending when the wait starts ends it at
  once; without a signal the wait lasts the interval. The channel that \<open>New\<close> makes
  has one slot and is empty. On the server that \<open>New\<close> builds, no run of
  notifications, cycles and waits blocks or panics, and after every run the channel has
  one slot, is open and holds at most one signal; a notification then puts the signal
  into the empty channel, and it is dropped, leaving the server as it is, when a signal
  is pending: the sender never blocks and a second signal is not queued.
\<close>

theorem config_signal_interrupts_wait:
  "(buf (ConfigUpdateChan (srv m)) = [] \<and> 0 \<le> t \<and> t < interval \<longrightarrow>
      fst (wait_interval interval (Some t) m) = (t, True))
   \<and> (buf (ConfigUpdateChan (srv m)) \<noteq> [] \<and> 0 < interval \<longrightarrow>
      fst (wait_interval interval arrival m) = (0, True))
   \<and> (buf (ConfigUpdateChan (srv m)) = [] \<longrightarrow>
      fst (wait_interval interval None m) = (max 0 interval, False))
   \<and> ConfigUpdateChan (New startTime) = \<lparr>buf = [], cap = 1, closed = False\<rparr>
   \<and> (srv m0 = New startTime \<longrightarrow>
      (\<exists>m1. run_steps ParseDuration update steps m0 = Done m1
         \<and> cap (ConfigUpdateChan (srv m1)) = 1
         \<and> \<not> closed (ConfigUpdateChan (srv m1))
         \<and> length (buf (ConfigUpdateChan (srv m1))) \<le> 1
         \<and> (buf (ConfigUpdateChan (srv m1)) = [] \<longrightarrow>
              notifyConfigUpdate waiting (srv m1)
                = Done ((srv m1)\<lparr>ConfigUpdateChan := (ConfigUpdateChan (srv m1))\<lparr>buf := [()]\<rparr>\<rparr>,
                        True))
         \<and> (buf (ConfigUpdateChan (srv m1)) \<noteq> [] \<longrightarrow>
              notifyConfigUpdate waiting (srv m1) = Done (srv m1, False))))"
proof -
  have a: "(buf (ConfigUpdateChan (srv m)) = [] \<and> 0 \<le> t \<and> t < interval \<longrightarrow>
      fst (wait_interval interval (Some t) m) = (t, True))
   \<and> (buf (ConfigUpdateChan (srv m)) \<noteq> [] \<and> 0 < interval \<longrightarrow>
      fst (wait_interval interval arrival m) = (0, True))
   \<and> (buf (ConfigUpdateChan (srv m)) = [] \<longrightarrow>
      fst (wait_interval interval None m) = (max 0 interval, False))"
    by (auto simp: wait_interval_def split: list.splits)
  have b: "ConfigUpdateChan (New startTime) = \<lparr>buf = [], cap = 1, closed = False\<rparr>"
    by (simp add: New_def make_chan_def)
  have c: "\<exists>m1. run_steps ParseDuration update steps m0 = Done m1
         \<and> cap (ConfigUpdateChan (srv m1)) = 1
         \<and> \<not> closed (ConfigUpdateChan (srv m1))
         \<and> length (buf (ConfigUpdateChan (srv m1))) \<le> 1
         \<and> (buf (ConfigUpdateChan (srv m1)) = [] \<longrightarrow>
              notifyConfigUpdate waiting (srv m1)
                = Done ((srv m1)\<lparr>ConfigUpdateChan := (ConfigUpdateChan (srv m1))\<lparr>buf := [()]\<rparr>\<rparr>,
                        True))
         \<and> (buf (ConfigUpdateChan (srv m1)) \<noteq> [] \<longrightarrow>
              notifyConfigUpdate waiting (srv m1) = Done (srv m1, False))"
    if "srv m0 = New startTime"
  proof -
    have "single_slot (ConfigUpdateChan (srv m0))" using that by (simp add: single_slot_New)
    from run_steps_single_slot [OF this, of ParseDuration update steps] obtain m1 where
      m1: "run_steps ParseDuration update steps m0 = Done m1"
        "single_slot (ConfigUpdateChan (srv m1))"
      by blast
    from notify_single_slot [OF m1(2), of waiting] m1 show ?thesis
      by (simp add: single_slot_def)
  qed
  show ?thesis using a b c by blast
qed

lemmas fresh_defs = fresh_monitor_def signalled_monitor_def monitorIP_init_def New_def
  make_chan_def restore_lastIP_def

theorem config_signal_interrupts_wait_witness:
  "fst (wait_interval (5 * Minute) (Some (10 * Second)) fresh_monitor) = (10 * Second, True)
   \<and> fst (wait_interval (5 * Minute) None signalled_monitor) = (0, True)
   \<and> fst (wait_interval (5 * Minute) None fresh_monitor) = (5 * Minute, False)
   \<and> srv fresh_monitor = New 0
   \<and> run_steps parse_example record_call [Notify False, Notify True] fresh_monitor
       = Done signalled_monitor
   \<and> notifyConfigUpdate False (New 0) = Done (srv signalled_monitor, True)
   \<and> notifyConfigUpdate False (srv signalled_monitor) = Done (srv signalled_monitor, False)
   \<and> run_steps parse_example record_call [Notify False, Notify False, Wait (5 * Minute) None]
         fresh_monitor
       = Done (fresh_monitor\<lparr>mlog := [LogConfigUpdate]\<rparr>)"
proof -
  note th = config_signal_interrupts_wait [where interval = "5 * Minute" and waiting = False
      and ParseDuration = parse_example and update = record_call and startTime = 0]
  have a: "fst (wait_interval (5 * Minute) (Some (10 * Second)) fresh_monitor)
     = (10 * Second, True)"
    using th [where m = fresh_monitor and t = "10 * Second"]
    by (simp add: fresh_defs Minute_def Second_def)
  have b: "fst (wait_interval (5 * Minute) None signalled_monitor) = (0, True)"
    using th [where m = signalled_monitor and arrival = None]
    by (simp add: fresh_defs Minute_def Second_def)
  have c: "fst (wait_interval (5 * Minute) None fresh_monitor) = (5 * Minute, False)"
    using th [where m = fresh_monitor]
    by (simp add: fresh_defs Minute_def Second_def)
  have d: "srv fresh_monitor = New 0"
    by (simp add: fresh_monitor_def monitorIP_init_def)
  have e: "run_steps parse_example record_call [Notify False, Notify True] fresh_monitor
       = Done signalled_monitor"
    by (simp add: fresh_defs notifyConfigUpdate_def chan_send_def)
  have e0: "run_steps parse_example record_call [] fresh_monitor = Done fresh_monitor"
    by simp
  note n = config_signal_interrupts_wait [where waiting = False
      and ParseDuration = parse_example and update = record_call and startTime = 0
      and ?m0.0 = fresh_monitor, THEN conjunct2, THEN conjunct2, THEN conjunct2, THEN conjunct2,
      THEN mp, OF d]
  have f: "notifyConfigUpdate False (New 0) = Done (srv signalled_monitor, True)"
    using n [of "[]"] by (simp add: fresh_defs)
  have g: "notifyConfigUpdate False (srv signalled_monitor) = Done (srv signalled_monitor, False)"
    using n [of "[Notify False, Notify True]"] unfolding e by (simp add: fresh_defs)
  have h: "run_steps parse_example record_call [Notify False, Notify False, Wait (5 * Minute) None]
         fresh_monitor
       = Done (fresh_monitor\<lparr>mlog := [LogConfigUpdate]\<rparr>)"
    by (simp add: fresh_defs notifyConfigUpdate_def chan_send_def wait_interval_def)
  show ?thesis using a b c d e f g h by simp
qed

text \<open>
  Claim C1. In a cycle whose discovery succeeds with an address that differs from the
  remembered one, the scheduler appends the observation to the history, calls the DNS
  updater with the new address and remembers the address. It does not broadcast: the hub
  of the server is left as it was, while \<open>BroadcastIPChange\<close> would have dispatched a
  message to its subscribers.
\<close>

theorem monitor_cycle_on_change:
  "currentIP \<noteq> lastIP m \<longrightarrow>
     ip_history (snd (monitor_cycle ParseDuration update cfg now (currentIP, source, None) history_err m))
       = ip_history m @ [(currentIP, ''v4'', source)]
     \<and> sync (snd (monitor_cycle ParseDuration update cfg now (currentIP, source, None) history_err m))
       = snd (update currentIP (sync m))
     \<and> lastIP (snd (monitor_cycle ParseDuration update cfg now (currentIP, source, None) history_err m))
       = currentIP
     \<and> Hub (srv (snd (monitor_cycle ParseDuration update cfg now (currentIP, source, None) history_err m)))
       = Hub (srv m)"
  by (auto simp: monitor_cycle_def Let_def split: option.splits prod.splits)

theorem monitor_cycle_on_change_witness:
  "''203.0.113.2'' \<noteq> lastIP (example_monitor [] [] [])
   \<and> ip_history (snd (monitor_cycle parse_example record_call (interval_cfg ''5m'' [stun_cfg True])
        0 (''203.0.113.2'', ''STUN'', None) None (example_monitor [] [] [])))
       = [(''203.0.113.2'', ''v4'', ''STUN'')]
   \<and> sync (snd (monitor_cycle parse_example record_call (interval_cfg ''5m'' [stun_cfg True])
        0 (''203.0.113.2'', ''STUN'', None) None (example_monitor [] [] [])))
       = [''203.0.113.2'']
   \<and> lastIP (snd (monitor_cycle parse_example record_call (interval_cfg ''5m'' [stun_cfg True])
        0 (''203.0.113.2'', ''STUN'', None) None (example_monitor [] [] [])))
       = ''203.0.113.2''
   \<and> Hub (srv (snd (monitor_cycle parse_example record_call (interval_cfg ''5m'' [stun_cfg True])
        0 (''203.0.113.2'', ''STUN'', None) None (example_monitor [] [] []))))
       = Some (NewHub\<lparr>clients := [1]\<rparr>)
   \<and> BroadcastIPChange True ''203.0.113.2'' ''STUN'' (example_server [])
       \<noteq> Done (example_server [])"
proof -
  have n: "''203.0.113.2'' \<noteq> lastIP (example_monitor [] [] ([] :: string list))"
    by (simp add: example_monitor_def)
  note th = monitor_cycle_on_change [of "''203.0.113.2''" "example_monitor [] [] []"
      parse_example record_call "interval_cfg ''5m'' [stun_cfg True]" 0 "''STUN''" None,
      THEN mp, OF n]
  have b: "BroadcastIPChange True ''203.0.113.2'' ''STUN'' (example_server [])
       \<noteq> Done (example_server [])"
    by (simp add: BroadcastIPChange_def Broadcast_def chan_send_def example_server_def NewHub_def
        make_chan_def fun_eq_iff)
  show ?thesis using th n b
    by (simp add: example_monitor_def example_server_def record_call_def)
qed

lemma audit_pause:
  "audit_rows (trace s) = A \<Longrightarrow> retry_pause line dl a b s = (p, s1) \<Longrightarrow>
   audit_rows (trace s1) = A"
  by (auto simp: retry_pause_def backoff_wait_def emit_def audit_rows_def is_audit_def
      split: if_splits)

lemma audit_zone_call:
  "audit_rows (trace s) = A \<Longrightarrow>
   api_call (ZoneIDByName_call api zn) f s = (r, s') \<Longrightarrow> audit_rows (trace s') = A"
  by (auto simp: api_call_def audit_rows_def is_audit_def split: prod.splits)

lemma audit_getZoneIDWithRetry:
  assumes "getZoneIDWithRetry cf api dl zn acc s = (r, s')"
  shows "audit_rows (trace s') = audit_rows (trace s)"
proof -
  have "case r of Inr zoneID \<Rightarrow> audit_rows (trace s') = audit_rows (trace s)
        | Inl e \<Rightarrow> audit_rows (trace s') = audit_rows (trace s)"
    using assms unfolding getZoneIDWithRetry_def
    by (rule getZoneIDWithRetry_loop_rule [rotated 3,
          where I = "\<lambda>x. audit_rows (trace x) = audit_rows (trace s)"])
       (auto dest: audit_pause audit_zone_call split: sum.splits)
  then show ?thesis by (cases r) auto
qed

lemma adjust_log_no_failure:
  "dns_failure_logged (ls @ adjust_log ParseDuration cfg) = dns_failure_logged ls"
  by (simp add: adjust_log_def dns_failure_logged_def split: option.splits)

lemma monitor_cycle_no_failure_log:
  assumes none: "\<And>ip u. fst (update ip u) = None" and m: "\<not> dns_failure_logged (mlog m)"
  shows "\<not> dns_failure_logged (mlog (snd (monitor_cycle ParseDuration update cfg now got history_err m)))"
proof -
  obtain currentIP source err where got: "got = (currentIP, source, err)" by (cases got) auto
  have a: "\<not> dns_failure_logged (mlog m @ adjust_log ParseDuration cfg)"
    using m by (simp add: adjust_log_no_failure)
  show ?thesis
  proof (cases err)
    case (Some e)
    then show ?thesis using a
      by (simp add: got monitor_cycle_def Let_def dns_failure_logged_def)
  next
    case None
    show ?thesis
    proof (cases "currentIP = lastIP m")
      case True
      then show ?thesis using a None
        by (simp add: got monitor_cycle_def Let_def)
    next
      case False
      let ?m5 = "(case history_err of
           Some e \<Rightarrow> m\<lparr>mlog := mlog m @ adjust_log ParseDuration cfg
                              @ [LogIPChanged (lastIP m) currentIP source, LogHistoryFailed e]\<rparr>
         | None \<Rightarrow> m\<lparr>mlog := mlog m @ adjust_log ParseDuration cfg
                              @ [LogIPChanged (lastIP m) currentIP source]\<rparr>)"
      obtain r u where u: "update currentIP (sync m) = (r, u)" by (cases "update currentIP (sync m)")
      then have r: "r = None" using none [of currentIP "sync m"] by simp
      show ?thesis using a None False u r
        by (cases history_err) (simp_all add: got monitor_cycle_def Let_def dns_failure_logged_def)
    qed
  qed
qed

section \<open>The result of UpdateIP\<close>

text \<open>
  The claim C10 as stated fails: on a store that does not know the zone, the zone
  lookup fails after its retries, the failure is logged, and no row is handed to
  \<open>AddDNSUpdate\<close>.
\<close>

theorem zone_failure_counterexample:
  "fst zone_failure_sync = None
   \<and> trace (snd zone_failure_sync)
      = [Log (LogDebugToken ''home'' ''0123...'' 20),
         ZoneIDByName_call ''0123456789abcdefghij'' ''example.com'',
         Log (LogRetryZoneID ''home'' ''example.com'' 1 3), TimerFired (1 * Second),
         ZoneIDByName_call ''0123456789abcdefghij'' ''example.com'',
         Log (LogRetryZoneID ''home'' ''example.com'' 2 3), TimerFired (2 * Second),
         ZoneIDByName_call ''0123456789abcdefghij'' ''example.com'',
         Log (LogRetryZoneID ''home'' ''example.com'' 3 3), TimerFired (4 * Second),
         ZoneIDByName_call ''0123456789abcdefghij'' ''example.com'',
         Log (LogZoneIDFailed ''home'' ''example.com''
                (retry_failed (Some ''zone could not be found'')))]
   \<and> audit_rows (trace (snd zone_failure_sync)) = []"
  by (simp add: zone_failure_sync_def no_zone_store_def sync_defs backoff_wait_def
      initialBackoff_def maxBackoff_def Second_def audit_rows_def is_audit_def)

text \<open>
  Claim C10, as amended. \<open>UpdateIP\<close> returns nil on every path, so a cycle of the
  scheduler never logs the failure of a DNS update. A client that cannot be constructed
  is logged and its account skipped; a zone lookup that fails after its retries is
  logged and hands no row to \<open>AddDNSUpdate\<close>; a record whose retries are used up
  hands a failure row to \<open>AddDNSUpdate\<close> (when a database is attached) and is
  logged; in each case the loop goes on.
\<close>

theorem UpdateIP_returns_nil:
  "fst (UpdateIP cf c newIP s) = None
   \<and> (\<not> dns_failure_logged (mlog m) \<longrightarrow>
        \<not> dns_failure_logged
            (mlog (snd (monitor_cycle ParseDuration (UpdateIP cf c) cfg now got history_err m))))
   \<and> (APIToken account \<noteq> [] \<and> NewWithAPIToken cf (APIToken account) = Some err \<longrightarrow>
        update_accounts cf db newIP (account # accounts) s
          = update_accounts cf db newIP accounts (emit (Log (LogClientFailed (Name account) err)) s))
   \<and> (getZoneIDWithRetry cf api (clock s + 60 * Second) (ZoneName zone) accountName s
          = (Inl err, s1) \<longrightarrow>
        update_zone cf db api accountName newIP zone s
          = emit (Log (LogZoneIDFailed accountName (ZoneName zone) err)) s1
        \<and> audit_rows (trace s1) = audit_rows (trace s))
   \<and> (updateRecordWithRetry cf api deadline zoneID (fullDomain rcd zoneName) newIP accountName s
          = (Some err, s2) \<longrightarrow>
        update_records cf db api deadline zoneID zoneName accountName newIP (rcd # rest) s
          = update_records cf db api deadline zoneID zoneName accountName newIP rest
              (emit (Log (LogRecordFailed (fullDomain rcd zoneName) err))
                 (AddDNSUpdate_if db
                    (AddDNSUpdate accountName newIP ''A'' (fullDomain rcd zoneName) False err) s2)))"
proof -
  have a: "fst (UpdateIP cf c ip u) = None" for ip u by (simp add: UpdateIP_def)
  have b: "\<not> dns_failure_logged
            (mlog (snd (monitor_cycle ParseDuration (UpdateIP cf c) cfg now got history_err m)))"
    if "\<not> dns_failure_logged (mlog m)"
    using a that by (rule monitor_cycle_no_failure_log)
  have d: "update_zone cf db api accountName newIP zone s
          = emit (Log (LogZoneIDFailed accountName (ZoneName zone) err)) s1
        \<and> audit_rows (trace s1) = audit_rows (trace s)"
    if z: "getZoneIDWithRetry cf api (clock s + 60 * Second) (ZoneName zone) accountName s
          = (Inl err, s1)"
    using z audit_getZoneIDWithRetry [OF z] by (simp add: update_zone_def)
  show ?thesis using a b d by simp
qed


lemma zone_lookup_fails:
  "getZoneIDWithRetry (store_api []) ''0123456789abcdefghij''
       (clock (start no_zone_store) + 60 * Second)
       (ZoneName \<lparr>ZoneName = ''example.com'', Records = [''@'']\<rparr>) ''home'' (start no_zone_store)
     = (Inl (retry_failed (Some ''zone could not be found'')),
        \<lparr>remote = no_zone_store, clock = 7 * Second,
         trace = [ZoneIDByName_call ''0123456789abcdefghij'' ''example.com'',
           Log (LogRetryZoneID ''home'' ''example.com'' 1 3), TimerFired (1 * Second),
           ZoneIDByName_call ''0123456789abcdefghij'' ''example.com'',
           Log (LogRetryZoneID ''home'' ''example.com'' 2 3), TimerFired (2 * Second),
           ZoneIDByName_call ''0123456789abcdefghij'' ''example.com'',
           Log (LogRetryZoneID ''home'' ''example.com'' 3 3), TimerFired (4 * Second),
           ZoneIDByName_call ''0123456789abcdefghij'' ''example.com'']\<rparr>)"
  by (simp add: no_zone_store_def sync_defs backoff_wait_def initialBackoff_def maxBackoff_def
      Second_def)

lemma record_update_fails:
  "updateRecordWithRetry (store_api []) ''token'' (60 * Second) ''zone1''
       (fullDomain ''@'' ''example.com'') ''203.0.113.2'' ''home''
       (start (example_store always_fails))
     = (Some (retry_failed (Some ''HTTP 502'')),
        \<lparr>remote = example_store [], clock = 11 * Second,
         trace = [ListDNSRecords_call ''token'' ''zone1'' ''example.com'' ''A'',
           Log (LogRetryRecord ''example.com'' 1 3), TimerFired (1 * Second),
           ListDNSRecords_call ''token'' ''zone1'' ''example.com'' ''A'',
           Log (LogRetryRecord ''example.com'' 2 3), TimerFired (2 * Second),
           ListDNSRecords_call ''token'' ''zone1'' ''example.com'' ''A'',
           Log (LogRetryRecord ''example.com'' 3 3), TimerFired (4 * Second),
           ListDNSRecords_call ''token'' ''zone1'' ''example.com'' ''A'']\<rparr>)"
  by (simp add: sync_defs always_fails_def backoff_wait_def initialBackoff_def maxBackoff_def
      Second_def)

theorem UpdateIP_returns_nil_witness:
  "fst zone_failure_sync = None
   \<and> \<not> dns_failure_logged (mlog (example_monitor [] [] (start no_zone_store)))
   \<and> \<not> dns_failure_logged
        (mlog (snd (monitor_cycle parse_example
           (UpdateIP (store_api []) (example_updater [example_account [''@'']] True))
           (interval_cfg ''5m'' [stun_cfg True]) 0 (''203.0.113.2'', ''STUN'', None) None
           (example_monitor [] [] (start no_zone_store)))))
   \<and> trace (update_accounts (store_api [''0123456789abcdefghij'']) True ''203.0.113.2''
         [example_account [''@'']] (start (example_store [])))
       = [Log (LogClientFailed ''home'' ''invalid credentials'')]
   \<and> update_zone (store_api []) True ''0123456789abcdefghij'' ''home'' ''203.0.113.2''
         \<lparr>ZoneName = ''example.com'', Records = [''@'']\<rparr> (start no_zone_store)
       = emit (Log (LogZoneIDFailed ''home'' ''example.com''
                      (retry_failed (Some ''zone could not be found''))))
           (snd (getZoneIDWithRetry (store_api []) ''0123456789abcdefghij'' (60 * Second)
                   ''example.com'' ''home'' (start no_zone_store)))
   \<and> audit_rows (trace (snd (getZoneIDWithRetry (store_api []) ''0123456789abcdefghij''
         (60 * Second) ''example.com'' ''home'' (start no_zone_store)))) = []
   \<and> audit_rows (trace (update_records (store_api []) True ''token'' (60 * Second) ''zone1''
         ''example.com'' ''home'' ''203.0.113.2'' [''@''] (start (example_store always_fails))))
       = [AddDNSUpdate ''home'' ''203.0.113.2'' ''A'' ''example.com'' False
            (retry_failed (Some ''HTTP 502''))]"
proof -
  have a: "fst zone_failure_sync = None"
    unfolding zone_failure_sync_def
    using UpdateIP_returns_nil [THEN conjunct1] .
  have n: "\<not> dns_failure_logged (mlog (example_monitor [] [] (start no_zone_store)))"
    by (simp add: example_monitor_def dns_failure_logged_def)
  note b = UpdateIP_returns_nil [THEN conjunct2, THEN conjunct1, rule_format, OF n,
      where cf = "store_api []" and c = "example_updater [example_account [''@'']] True"
      and ParseDuration = parse_example and cfg = "interval_cfg ''5m'' [stun_cfg True]"
      and now = 0 and got = "(''203.0.113.2'', ''STUN'', None)" and history_err = None]
  have tok: "APIToken (example_account [''@'']) \<noteq> []
      \<and> NewWithAPIToken (store_api [''0123456789abcdefghij'']) (APIToken (example_account [''@'']))
          = Some ''invalid credentials''"
    by (simp add: example_account_def store_api_def)
  note c = UpdateIP_returns_nil [THEN conjunct2, THEN conjunct2, THEN conjunct1, rule_format,
      OF tok, where db = True and newIP = "''203.0.113.2''" and accounts = "[]"
      and s = "start (example_store [])"]
  have c': "trace (update_accounts (store_api [''0123456789abcdefghij'']) True ''203.0.113.2''
         [example_account [''@'']] (start (example_store [])))
       = [Log (LogClientFailed ''home'' ''invalid credentials'')]"
    unfolding c by (simp add: emit_def start_def example_account_def)
  note d = UpdateIP_returns_nil [THEN conjunct2, THEN conjunct2, THEN conjunct2, THEN conjunct1,
      rule_format, OF zone_lookup_fails, where db = True and newIP = "''203.0.113.2''"]
  have z: "snd (getZoneIDWithRetry (store_api []) ''0123456789abcdefghij'' (60 * Second)
                   ''example.com'' ''home'' (start no_zone_store))
      = \<lparr>remote = no_zone_store, clock = 7 * Second,
         trace = [ZoneIDByName_call ''0123456789abcdefghij'' ''example.com'',
           Log (LogRetryZoneID ''home'' ''example.com'' 1 3), TimerFired (1 * Second),
           ZoneIDByName_call ''0123456789abcdefghij'' ''example.com'',
           Log (LogRetryZoneID ''home'' ''example.com'' 2 3), TimerFired (2 * Second),
           ZoneIDByName_call ''0123456789abcdefghij'' ''example.com'',
           Log (LogRetryZoneID ''home'' ''example.com'' 3 3), TimerFired (4 * Second),
           ZoneIDByName_call ''0123456789abcdefghij'' ''example.com'']\<rparr>"
    using zone_lookup_fails by (simp add: start_def)
  have d1: "update_zone (store_api []) True ''0123456789abcdefghij'' ''home'' ''203.0.113.2''
         \<lparr>ZoneName = ''example.com'', Records = [''@'']\<rparr> (start no_zone_store)
       = emit (Log (LogZoneIDFailed ''home'' ''example.com''
                      (retry_failed (Some ''zone could not be found''))))
           (snd (getZoneIDWithRetry (store_api []) ''0123456789abcdefghij'' (60 * Second)
                   ''example.com'' ''home'' (start no_zone_store)))"
    using d [THEN conjunct1] unfolding z by simp
  have d2: "audit_rows (trace (snd (getZoneIDWithRetry (store_api []) ''0123456789abcdefghij''
         (60 * Second) ''example.com'' ''home'' (start no_zone_store)))) = []"
    using d [THEN conjunct2] unfolding z by (simp add: start_def audit_rows_def)
  note e = UpdateIP_returns_nil [THEN conjunct2, THEN conjunct2, THEN conjunct2, THEN conjunct2,
      rule_format, OF record_update_fails, where db = True and rest = "[]"]
  have e': "audit_rows (trace (update_records (store_api []) True ''token'' (60 * Second) ''zone1''
         ''example.com'' ''home'' ''203.0.113.2'' [''@''] (start (example_store always_fails))))
       = [AddDNSUpdate ''home'' ''203.0.113.2'' ''A'' ''example.com'' False
            (retry_failed (Some ''HTTP 502''))]"
    unfolding e
    by (simp add: AddDNSUpdate_if_def emit_def audit_rows_def is_audit_def fullDomain_def)
  show ?thesis using a n b c' d1 d2 e' by simp
qed

end
